theory Spec2Isabelle
  imports Main
begin

section \<open>Python values\<close>

text \<open>
  The crawler of \<^verbatim>\<open>take_tiki_data.py\<close> handles Python objects that come out of
  \<^verbatim>\<open>resp.json()\<close> and goes on to store some of them: \<^verbatim>\<open>None\<close>, booleans, integers,
  strings, lists and dicts. A dict is the list of its items; a Python dict has each key
  once, so looking a key up with \<open>map_of\<close> is \<^verbatim>\<open>d[k]\<close>. JSON numbers are taken to be
  integers.
\<close>

datatype py =
    PyNone
  | PyBool bool
  | PyInt int
  | PyStr string
  | PyList "py list"
  | PyDict "(string \<times> py) list"

text \<open>\<^verbatim>\<open>data.get(k)\<close> and \<^verbatim>\<open>data.get(k, default)\<close> on a dict.\<close>

definition dict_get_default :: "(string \<times> py) list \<Rightarrow> string \<Rightarrow> py \<Rightarrow> py" where
  "dict_get_default d k dflt = (case map_of d k of None \<Rightarrow> dflt | Some v \<Rightarrow> v)"

definition dict_get :: "(string \<times> py) list \<Rightarrow> string \<Rightarrow> py" where
  "dict_get d k = dict_get_default d k PyNone"

text \<open>Truth value of an object, as \<^verbatim>\<open>if product:\<close> tests it.\<close>

fun truthy :: "py \<Rightarrow> bool" where
  "truthy PyNone = False"
| "truthy (PyBool b) = b"
| "truthy (PyInt i) = (i \<noteq> 0)"
| "truthy (PyStr s) = (s \<noteq> [])"
| "truthy (PyList xs) = (xs \<noteq> [])"
| "truthy (PyDict d) = (d \<noteq> [])"

section \<open>Constants of the crawler\<close>

definition MAX_CONCURRENCY :: nat where "MAX_CONCURRENCY = 100"
definition MAX_RETRIES :: int where "MAX_RETRIES = 3"
definition BATCH_SIZE :: int where "BATCH_SIZE = 1000"

section \<open>The network and the exceptions of one attempt\<close>

text \<open>
  The exceptions an attempt can meet: \<^verbatim>\<open>asyncio.TimeoutError\<close>, which has a handler of
  its own, and every other subclass of \<^verbatim>\<open>Exception\<close>, which the second handler takes.
\<close>

datatype exn = TimeoutError | Exception

text \<open>
  What \<^verbatim>\<open>session.get\<close> hands back: the status, and what \<^verbatim>\<open>await resp.json()\<close> gives
  should the code ask for it (it raises on a body that is not JSON, and on a timeout while
  the body is read).
\<close>

record response =
  status :: int
  body :: "exn + py"

text \<open>
  The remote side of one fetch is a function of the attempt number: the exception
  \<^verbatim>\<open>session.get\<close> raises on that attempt, or the response it yields.
\<close>

type_synonym remote = "int \<Rightarrow> exn + response"

section \<open>The state the coroutines share\<close>

text \<open>
  The events of a fetch that matter to the limiter, in the order the coroutine goes
  through them: entering \<^verbatim>\<open>async with semaphore\<close>, the politeness sleep, the call of
  \<^verbatim>\<open>session.get\<close>, a backoff sleep of so many seconds, leaving the block of
  \<^verbatim>\<open>session.get\<close> (by its end, \<^verbatim>\<open>continue\<close>, \<^verbatim>\<open>return\<close> or an exception), and leaving
  the semaphore's block.
\<close>

datatype event = Acquire | Delay | Request | Sleep int | Closed | Release

text \<open>
  The second component of a pair in \<^verbatim>\<open>failed_ids\<close> is an integer (the status) or a
  string (\<^verbatim>\<open>"Exception"\<close>, \<^verbatim>\<open>"Failed"\<close>).
\<close>

datatype err = Code int | Label string

record state =
  failed_ids :: "(string \<times> err) list"
  consecutive_429 :: int
  events :: "event list"

definition emit :: "event \<Rightarrow> state \<Rightarrow> state" where
  "emit e s = s\<lparr>events := events s @ [e]\<rparr>"

definition fail_with :: "string \<Rightarrow> err \<Rightarrow> state \<Rightarrow> state" where
  "fail_with pid err s = s\<lparr>failed_ids := failed_ids s @ [(pid, err)]\<rparr>"

section \<open>fetch_product\<close>

text \<open>How control leaves the body of the \<^verbatim>\<open>for\<close> loop: on to the next attempt, or out of the function.\<close>

datatype flow = Continue | Return py

text \<open>
  The \<^verbatim>\<open>try\<close> block (lines 54 to 85) of attempt \<open>attempt\<close>. The parameter \<open>get_text\<close> is
  \<^verbatim>\<open>BeautifulSoup(html_desc, "html.parser").get_text(separator="\n").strip()\<close>, a library
  call: the text, or the exception the library raises on that object. A body that is not
  a dict has no \<^verbatim>\<open>get\<close>: the attribute error is an \<^verbatim>\<open>Exception\<close>.
\<close>

definition try_block ::
  "(py \<Rightarrow> exn + string) \<Rightarrow> remote \<Rightarrow> string \<Rightarrow> int \<Rightarrow> state \<Rightarrow> (exn + flow) \<times> state" where
  "try_block get_text get pid attempt s0 =
    (let s1 = emit Request (emit Delay s0) in
     case get attempt of
       Inl e \<Rightarrow> (Inl e, emit Closed s1)
     | Inr resp \<Rightarrow>
         if status resp = 429 then
           (let s2 = s1\<lparr>consecutive_429 := consecutive_429 s1 + 1\<rparr>;
                wait = 5 * attempt
            in (Inr Continue, emit Closed (emit (Sleep wait) s2)))
         else if status resp = 404 then
           (Inr (Return PyNone), emit Closed (fail_with pid (Code 404) s1))
         else if status resp \<noteq> 200 then
           (Inr (Return PyNone), emit Closed (fail_with pid (Code (status resp)) s1))
         else
           (case body resp of
              Inl e \<Rightarrow> (Inl e, emit Closed s1)
            | Inr (PyDict data) \<Rightarrow>
                (let html_desc = dict_get_default data ''description'' (PyStr '''') in
                 case get_text html_desc of
                   Inl e \<Rightarrow> (Inl e, emit Closed s1)
                 | Inr text_desc \<Rightarrow>
                     (Inr (Return (PyDict
                        [(''id'', dict_get data ''id''),
                         (''name'', dict_get data ''name''),
                         (''url_key'', dict_get data ''url_key''),
                         (''price'', dict_get data ''price''),
                         (''description'', PyStr text_desc),
                         (''image_url'', dict_get data ''thumbnail_url'')])),
                      emit Closed s1))
            | Inr _ \<Rightarrow> (Inl Exception, emit Closed s1)))"

text \<open>
  One pass of the loop body: the semaphore's block around the \<^verbatim>\<open>try\<close> statement with its
  two handlers (lines 52 to 93). Both handlers run inside the semaphore's block.
\<close>

definition attempt_once ::
  "(py \<Rightarrow> exn + string) \<Rightarrow> remote \<Rightarrow> string \<Rightarrow> int \<Rightarrow> state \<Rightarrow> (exn + flow) \<times> state" where
  "attempt_once get_text get pid attempt s0 =
    (case try_block get_text get pid attempt (emit Acquire s0) of
       (Inl TimeoutError, s1) \<Rightarrow> (Inr Continue, emit Release (emit (Sleep (2 * attempt)) s1))
     | (Inl Exception, s1) \<Rightarrow> (Inr (Return PyNone), emit Release (fail_with pid (Label ''Exception'') s1))
     | (Inr f, s1) \<Rightarrow> (Inr f, emit Release s1))"

text \<open>
  The \<^verbatim>\<open>for\<close> loop over the attempts still to make, and what follows it (lines 95 to 97).
  An exception that no handler took would leave the function; the first equation of the
  \<open>case\<close> is that path.
\<close>

fun fetch_loop ::
  "(py \<Rightarrow> exn + string) \<Rightarrow> remote \<Rightarrow> string \<Rightarrow> int list \<Rightarrow> state \<Rightarrow> (exn + py) \<times> state" where
  "fetch_loop get_text get pid [] s = (Inr PyNone, fail_with pid (Label ''Failed'') s)"
| "fetch_loop get_text get pid (attempt # rest) s =
     (case attempt_once get_text get pid attempt s of
        (Inl e, s') \<Rightarrow> (Inl e, s')
      | (Inr Continue, s') \<Rightarrow> fetch_loop get_text get pid rest s'
      | (Inr (Return r), s') \<Rightarrow> (Inr r, s'))"

text \<open>\<^verbatim>\<open>fetch_product(session, pid)\<close>, with \<^verbatim>\<open>MAX_RETRIES\<close> as a parameter: \<^verbatim>\<open>range(1, MAX_RETRIES + 1)\<close> is \<open>[1..max_retries]\<close>.\<close>

definition fetch_product ::
  "(py \<Rightarrow> exn + string) \<Rightarrow> int \<Rightarrow> remote \<Rightarrow> string \<Rightarrow> state \<Rightarrow> (exn + py) \<times> state" where
  "fetch_product get_text max_retries get pid s = fetch_loop get_text get pid [1..max_retries] s"

text \<open>The module's initial values of the shared variables (lines 43 and 44), with no event yet.\<close>

definition init_state :: state where
  "init_state = \<lparr>failed_ids = [], consecutive_429 = 0, events = []\<rparr>"

section \<open>Strings: split, startswith, endswith, int and str\<close>

text \<open>
  \<^verbatim>\<open>s.split(sep)\<close> for a separator of one character: the pieces between the separators,
  at least one piece. File names are taken to be ASCII.
\<close>

fun split_on :: "char \<Rightarrow> string \<Rightarrow> string list" where
  "split_on sep [] = [[]]"
| "split_on sep (c # cs) =
     (if c = sep then [] # split_on sep cs
      else (let r = split_on sep cs in (c # hd r) # tl r))"

definition startswith :: "string \<Rightarrow> string \<Rightarrow> bool" where
  "startswith s p = (take (length p) s = p)"

definition endswith :: "string \<Rightarrow> string \<Rightarrow> bool" where
  "endswith s p = (length p \<le> length s \<and> drop (length s - length p) s = p)"

text \<open>
  \<^verbatim>\<open>int(s)\<close> in base ten: white space around the literal is dropped, a sign may come
  first, and the digits may be grouped by single underscores between them. Everything
  else is a \<^verbatim>\<open>ValueError\<close>, which is an \<^verbatim>\<open>Exception\<close>.
\<close>

definition is_space :: "char \<Rightarrow> bool" where
  "is_space c = (c \<in> set [CHR 0x09, CHR 0x0A, CHR 0x0B, CHR 0x0C, CHR 0x0D, CHR '' ''])"

definition strip :: "string \<Rightarrow> string" where
  "strip s = rev (dropWhile is_space (rev (dropWhile is_space s)))"

definition digit_of :: "char \<Rightarrow> int option" where
  "digit_of c =
     (let n = (of_char c :: nat) in if 48 \<le> n \<and> n \<le> 57 then Some (int n - 48) else None)"

text \<open>
  The digits after the sign; \<open>prev\<close> tells whether the character before was a digit, so
  that an underscore is accepted only between two digits.
\<close>

fun parse_digits :: "bool \<Rightarrow> int \<Rightarrow> string \<Rightarrow> int option" where
  "parse_digits prev acc [] = (if prev then Some acc else None)"
| "parse_digits prev acc (c # cs) =
     (if c = CHR ''_'' then (if prev then parse_digits False acc cs else None)
      else (case digit_of c of
              None \<Rightarrow> None
            | Some d \<Rightarrow> parse_digits True (10 * acc + d) cs))"

definition py_int :: "string \<Rightarrow> exn + int" where
  "py_int s =
     (let t = strip s;
          (sign, r) = (case t of
                         [] \<Rightarrow> (1, t)
                       | c # cs \<Rightarrow> if c = CHR ''+'' then (1, cs)
                                  else if c = CHR ''-'' then (- 1, cs) else (1, t))
      in case parse_digits False 0 r of
           None \<Rightarrow> Inl Exception
         | Some n \<Rightarrow> Inr (sign * n))"

text \<open>\<^verbatim>\<open>str(i)\<close>, which is also how an f-string formats an integer.\<close>

definition digit_char :: "nat \<Rightarrow> char" where
  "digit_char d = char_of (48 + d)"

function digits :: "nat \<Rightarrow> string" where
  "digits n = (if n < 10 then [digit_char n] else digits (n div 10) @ [digit_char (n mod 10)])"
  by pat_completeness auto
termination
  by (relation "measure id") auto

declare digits.simps [simp del]

definition py_str :: "int \<Rightarrow> string" where
  "py_str i = (if i < 0 then CHR ''-'' # digits (nat (- i)) else digits (nat i))"

section \<open>The checkpoint\<close>

text \<open>The name under which batch \<open>batch_index\<close> is saved in \<^verbatim>\<open>OUTPUT_DIR\<close> (line 135).\<close>

definition batch_file :: "int \<Rightarrow> string" where
  "batch_file batch_index = ''tiki_batch_'' @ py_str batch_index @ ''.json''"

text \<open>
  The set comprehension of lines 108 to 112 over the names \<^verbatim>\<open>os.listdir\<close> returns, as
  the list of its members; the first name that \<^verbatim>\<open>int\<close> rejects raises.
\<close>

definition is_batch_artifact :: "string \<Rightarrow> bool" where
  "is_batch_artifact f = (startswith f ''tiki_batch_'' \<and> endswith f ''.json'')"

fun done_batches :: "string list \<Rightarrow> exn + int list" where
  "done_batches [] = Inr []"
| "done_batches (f # fs) =
     (if is_batch_artifact f then
        (case py_int (hd (split_on CHR ''.'' (last (split_on CHR ''_'' f)))) of
           Inl e \<Rightarrow> Inl e
         | Inr n \<Rightarrow> (case done_batches fs of Inl e \<Rightarrow> Inl e | Inr ns \<Rightarrow> Inr (n # ns)))
      else done_batches fs)"

text \<open>Line 113.\<close>

definition start_batch :: "string list \<Rightarrow> exn + int" where
  "start_batch listing =
     (case done_batches listing of
        Inl e \<Rightarrow> Inl e
      | Inr ns \<Rightarrow> Inr (if ns \<noteq> [] then Max (set ns) + 1 else 1))"

text \<open>Line 117, and the batch indices the loop of line 118 goes through.\<close>

definition total_batches :: "string list \<Rightarrow> int" where
  "total_batches ids = (int (length ids) + BATCH_SIZE - 1) div BATCH_SIZE"

definition batch_range :: "string list \<Rightarrow> string list \<Rightarrow> exn + int list" where
  "batch_range listing ids =
     (case start_batch listing of
        Inl e \<Rightarrow> Inl e
      | Inr start \<Rightarrow> Inr [start..total_batches ids])"

section \<open>main\<close>

text \<open>
  What \<^verbatim>\<open>main\<close> works on besides the shared variables: the files of \<^verbatim>\<open>OUTPUT_DIR\<close>, each
  name with the value \<^verbatim>\<open>json.dump\<close> wrote, and \<^verbatim>\<open>FAILED_FILE\<close> as the list of its rows,
  a row being the list of its cells; \<open>None\<close> while the file does not exist. A file with
  no row has size 0.
\<close>

record world =
  mem :: state
  output_dir :: "(string \<times> py) list"
  failed_file :: "string list list option"

text \<open>\<^verbatim>\<open>xs[i:j]\<close>, where a negative index counts from the end and both are clipped.\<close>

definition slice :: "'a list \<Rightarrow> int \<Rightarrow> int \<Rightarrow> 'a list" where
  "slice xs i j =
     (let n = int (length xs);
          lo = (if i < 0 then max 0 (n + i) else min n i);
          hi = (if j < 0 then max 0 (n + j) else min n j)
      in take (nat (hi - lo)) (drop (nat lo) xs))"

text \<open>
  Lines 124 to 129: one task for each identifier of the batch, and the products that are
  true collected. The tasks are taken here one after the other in the order of the
  batch, the \<open>j\<close>-th with the remote side \<open>net j\<close>; asyncio may interleave them, which
  changes the order of the lists only (see \<open>fetch_product_frame\<close> below: a fetch reads
  nothing of the shared state). An exception of a task would come out of \<^verbatim>\<open>await task\<close>.
\<close>

fun gather ::
  "(py \<Rightarrow> exn + string) \<Rightarrow> int \<Rightarrow> (nat \<Rightarrow> remote) \<Rightarrow> nat \<Rightarrow> string list \<Rightarrow> state
    \<Rightarrow> (exn + py list) \<times> state" where
  "gather get_text max_retries net j [] s = (Inr [], s)"
| "gather get_text max_retries net j (pid # pids) s =
     (case fetch_product get_text max_retries (net j) pid s of
        (Inl e, s') \<Rightarrow> (Inl e, s')
      | (Inr product, s') \<Rightarrow>
          (case gather get_text max_retries net (Suc j) pids s' of
             (Inl e, s'') \<Rightarrow> (Inl e, s'')
           | (Inr results, s'') \<Rightarrow>
               (Inr (if truthy product then product # results else results), s'')))"

text \<open>Lines 135 to 137: the file is opened with mode \<^verbatim>\<open>"w"\<close>, which replaces it.\<close>

definition save_batch :: "int \<Rightarrow> py list \<Rightarrow> world \<Rightarrow> world" where
  "save_batch batch_index results w =
     w\<lparr>output_dir := (batch_file batch_index, PyList results)
          # filter (\<lambda>(name, content). name \<noteq> batch_file batch_index) (output_dir w)\<rparr>"

text \<open>A row of the frame built from \<^verbatim>\<open>failed_ids\<close>, and the row of the column names.\<close>

definition csv_row :: "string \<times> err \<Rightarrow> string list" where
  "csv_row r = (case r of (pid, Code n) \<Rightarrow> [pid, py_str n] | (pid, Label l) \<Rightarrow> [pid, l])"

definition csv_header :: "string list" where
  "csv_header = [''id'', ''error'']"

text \<open>Lines 142 to 153.\<close>

definition flush_failed :: "world \<Rightarrow> world" where
  "flush_failed w =
     (if failed_ids (mem w) \<noteq> [] then
        (let df_failed = map csv_row (failed_ids (mem w));
             file_exists = (failed_file w \<noteq> None);
             rows = (case failed_file w of None \<Rightarrow> [] | Some rs \<Rightarrow> rs);
             write_header = (\<not> file_exists \<or> length rows = 0)
         in w\<lparr>failed_file := Some (rows @ (if write_header then [csv_header] else []) @ df_failed),
              mem := (mem w)\<lparr>failed_ids := []\<rparr>\<rparr>)
      else w)"

text \<open>The loop of lines 118 to 155 over the batch indices still to go through.\<close>

fun process_batches ::
  "(py \<Rightarrow> exn + string) \<Rightarrow> int \<Rightarrow> (int \<Rightarrow> nat \<Rightarrow> remote) \<Rightarrow> string list \<Rightarrow> int list \<Rightarrow> world
    \<Rightarrow> exn + world" where
  "process_batches get_text max_retries net ids [] w = Inr w"
| "process_batches get_text max_retries net ids (batch_index # rest) w =
     (let start = (batch_index - 1) * BATCH_SIZE;
          finish = min (start + BATCH_SIZE) (int (length ids));
          batch_ids = slice ids start finish
      in case gather get_text max_retries (net batch_index) 0 batch_ids (mem w) of
           (Inl e, s) \<Rightarrow> Inl e
         | (Inr results, s) \<Rightarrow>
             process_batches get_text max_retries net ids rest
               (flush_failed (save_batch batch_index results (w\<lparr>mem := s\<rparr>))))"

text \<open>
  \<^verbatim>\<open>main\<close>, from the identifiers read from \<^verbatim>\<open>INPUT_FILE\<close>; \<open>net batch_index j\<close> is the
  remote side of the \<open>j\<close>-th task of that batch.
\<close>

definition main ::
  "(py \<Rightarrow> exn + string) \<Rightarrow> int \<Rightarrow> (int \<Rightarrow> nat \<Rightarrow> remote) \<Rightarrow> string list \<Rightarrow> world \<Rightarrow> exn + world" where
  "main get_text max_retries net ids w =
     (case batch_range (map fst (output_dir w)) ids of
        Inl e \<Rightarrow> Inl e
      | Inr indices \<Rightarrow> process_batches get_text max_retries net ids indices w)"

section \<open>The tasks of a batch under the semaphore\<close>

text \<open>
  asyncio runs the tasks of a batch on one thread and switches between them at an
  \<^verbatim>\<open>await\<close>. A task is what it still has to do, the events of its fetch in order, with
  two flags: whether it is inside the semaphore's block and whether it is inside the
  block of \<^verbatim>\<open>session.get\<close>.
\<close>

record task =
  holds :: bool
  in_flight :: bool
  todo :: "event list"

fun perform :: "event \<Rightarrow> task \<Rightarrow> task" where
  "perform Acquire t = t\<lparr>holds := True, todo := tl (todo t)\<rparr>"
| "perform Release t = t\<lparr>holds := False, todo := tl (todo t)\<rparr>"
| "perform Request t = t\<lparr>in_flight := True, todo := tl (todo t)\<rparr>"
| "perform Closed t = t\<lparr>in_flight := False, todo := tl (todo t)\<rparr>"
| "perform e t = t\<lparr>todo := tl (todo t)\<rparr>"

text \<open>
  The value of \<^verbatim>\<open>asyncio.BoundedSemaphore\<close>: \<^verbatim>\<open>acquire\<close> takes one when the value is
  positive and waits otherwise, \<^verbatim>\<open>release\<close> gives one back.
\<close>

fun semaphore_after :: "event \<Rightarrow> nat \<Rightarrow> nat" where
  "semaphore_after Acquire v = v - 1"
| "semaphore_after Release v = v + 1"
| "semaphore_after e v = v"

record loop_state =
  semaphore :: nat
  tasks :: "task list"

text \<open>One step of the event loop: some task goes through its next event.\<close>

inductive step :: "loop_state \<Rightarrow> loop_state \<Rightarrow> bool" where
  "i < length (tasks c) \<Longrightarrow> todo (tasks c ! i) = e # es \<Longrightarrow> (e = Acquire \<longrightarrow> 0 < semaphore c) \<Longrightarrow>
   step c \<lparr>semaphore = semaphore_after e (semaphore c),
           tasks = (tasks c)[i := perform e (tasks c ! i)]\<rparr>"

text \<open>
  The events of one fetch, from the first to the last. They are the same whatever the
  shared state holds when the fetch runs (\<open>fetch_product_events\<close> below), so a task's
  events are fixed by its identifier and its remote side.
\<close>

definition fetch_events :: "(py \<Rightarrow> exn + string) \<Rightarrow> int \<Rightarrow> remote \<Rightarrow> string \<Rightarrow> event list" where
  "fetch_events get_text max_retries get pid =
     events (snd (fetch_product get_text max_retries get pid init_state))"

text \<open>
  Line 125: the tasks of a batch as they are created, the \<open>j\<close>-th with the remote side
  \<open>net j\<close>.
\<close>

fun create_tasks ::
  "(py \<Rightarrow> exn + string) \<Rightarrow> int \<Rightarrow> (nat \<Rightarrow> remote) \<Rightarrow> nat \<Rightarrow> string list \<Rightarrow> task list" where
  "create_tasks get_text max_retries net j [] = []"
| "create_tasks get_text max_retries net j (pid # pids) =
     \<lparr>holds = False, in_flight = False, todo = fetch_events get_text max_retries (net j) pid\<rparr>
       # create_tasks get_text max_retries net (Suc j) pids"

text \<open>Lines 119 to 125: the tasks of batch \<open>batch_index\<close>.\<close>

definition batch_tasks ::
  "(py \<Rightarrow> exn + string) \<Rightarrow> int \<Rightarrow> (int \<Rightarrow> nat \<Rightarrow> remote) \<Rightarrow> string list \<Rightarrow> int \<Rightarrow> task list" where
  "batch_tasks get_text max_retries net ids batch_index =
     (let start = (batch_index - 1) * BATCH_SIZE;
          finish = min (start + BATCH_SIZE) (int (length ids));
          batch_ids = slice ids start finish
      in create_tasks get_text max_retries (net batch_index) 0 batch_ids)"

text \<open>
  The run as the event loop sees it, a batch index with the loop's state: a task of the
  current batch makes a step, or, all tasks of the batch being done and a batch being
  left, \<^verbatim>\<open>main\<close> creates the tasks of the next batch. The semaphore is the module's one
  object and keeps its value from batch to batch.
\<close>

inductive run_step ::
  "(py \<Rightarrow> exn + string) \<Rightarrow> int \<Rightarrow> (int \<Rightarrow> nat \<Rightarrow> remote) \<Rightarrow> string list
    \<Rightarrow> int \<times> loop_state \<Rightarrow> int \<times> loop_state \<Rightarrow> bool"
  for get_text max_retries net ids where
    task_step: "step c c' \<Longrightarrow> run_step get_text max_retries net ids (i, c) (i, c')"
  | next_batch:
      "\<forall>t\<in>set (tasks c). todo t = [] \<Longrightarrow> i < total_batches ids \<Longrightarrow>
       run_step get_text max_retries net ids (i, c)
         (i + 1, \<lparr>semaphore = semaphore c,
                  tasks = batch_tasks get_text max_retries net ids (i + 1)\<rparr>)"

text \<open>
  Before the loop of line 118 no task exists and the semaphore is at its capacity
  (line 45); the first batch to come is \<open>start\<close>.
\<close>

definition before_loop :: "nat \<Rightarrow> int \<Rightarrow> int \<times> loop_state" where
  "before_loop capacity start = (start - 1, \<lparr>semaphore = capacity, tasks = []\<rparr>)"

section \<open>Notions used in the statements\<close>

text \<open>
  The answers of the remote side that send the loop into its next pass: a response with
  status 429, and a timeout, of \<^verbatim>\<open>session.get\<close> or while the body of a 200 is read.
\<close>

definition rate_limited :: "exn + response \<Rightarrow> bool" where
  "rate_limited r = (case r of Inl e \<Rightarrow> False | Inr resp \<Rightarrow> status resp = 429)"

definition timed_out :: "exn + response \<Rightarrow> bool" where
  "timed_out r =
     (case r of
        Inl e \<Rightarrow> e = TimeoutError
      | Inr resp \<Rightarrow> status resp = 200 \<and> body resp = Inl TimeoutError)"

text \<open>The number of calls of \<^verbatim>\<open>session.get\<close> so far.\<close>

definition requests :: "state \<Rightarrow> nat" where
  "requests s = count_list (events s) Request"

text \<open>
  The state \<open>s\<close> after the additions \<open>d\<close>: the coroutines only ever append to the two
  lists and add to the counter.
\<close>

definition after :: "state \<Rightarrow> state \<Rightarrow> state" where
  "after s d =
     \<lparr>failed_ids = failed_ids s @ failed_ids d,
      consecutive_429 = consecutive_429 s + consecutive_429 d,
      events = events s @ events d\<rparr>"

text \<open>The reasons that \<open>fetch_product\<close> writes: any status, and its two labels.\<close>

definition crawler_reason :: "err \<Rightarrow> bool" where
  "crawler_reason e = (case e of Code n \<Rightarrow> True | Label l \<Rightarrow> l = ''Exception'' \<or> l = ''Failed'')"

text \<open>
  A sequence of events is bracketed, from a point where the task is inside the
  semaphore's block or not (\<open>h\<close>) and inside the block of \<^verbatim>\<open>session.get\<close> or not (\<open>r\<close>),
  when the semaphore is entered from outside only and left from inside only, when
  everything else happens inside it, the block of \<^verbatim>\<open>session.get\<close> lies within it, and
  the task ends outside both.
\<close>

fun bracketed :: "bool \<Rightarrow> bool \<Rightarrow> event list \<Rightarrow> bool" where
  "bracketed h r [] = (\<not> h \<and> \<not> r)"
| "bracketed h r (Acquire # es) = (\<not> h \<and> \<not> r \<and> bracketed True False es)"
| "bracketed h r (Delay # es) = (h \<and> \<not> r \<and> bracketed True False es)"
| "bracketed h r (Request # es) = (h \<and> \<not> r \<and> bracketed True True es)"
| "bracketed h r (Sleep n # es) = (h \<and> bracketed True r es)"
| "bracketed h r (Closed # es) = (h \<and> r \<and> bracketed True False es)"
| "bracketed h r (Release # es) = (h \<and> \<not> r \<and> bracketed False False es)"

text \<open>
  What the specification asks of the backoff: every \<open>Sleep\<close> happens while the task is
  outside the semaphore's block (\<open>h\<close> tells whether it is inside).
\<close>

fun sleeps_released :: "bool \<Rightarrow> event list \<Rightarrow> bool" where
  "sleeps_released h [] = True"
| "sleeps_released h (Acquire # es) = sleeps_released True es"
| "sleeps_released h (Release # es) = sleeps_released False es"
| "sleeps_released h (Sleep n # es) = (\<not> h \<and> sleeps_released h es)"
| "sleeps_released h (e # es) = sleeps_released h es"

text \<open>What the code does instead: every \<open>Sleep\<close> happens inside the semaphore's block.\<close>

fun sleeps_held :: "bool \<Rightarrow> event list \<Rightarrow> bool" where
  "sleeps_held h [] = True"
| "sleeps_held h (Acquire # es) = sleeps_held True es"
| "sleeps_held h (Release # es) = sleeps_held False es"
| "sleeps_held h (Sleep n # es) = (h \<and> sleeps_held h es)"
| "sleeps_held h (e # es) = sleeps_held h es"

text \<open>The rows of \<^verbatim>\<open>FAILED_FILE\<close>, none when it does not exist, and the invariant of its header.\<close>

definition rows_of :: "string list list option \<Rightarrow> string list list" where
  "rows_of f = (case f of None \<Rightarrow> [] | Some rs \<Rightarrow> rs)"

definition header_once :: "string list list option \<Rightarrow> bool" where
  "header_once f = (rows_of f = [] \<or> count_list (rows_of f) csv_header = 1)"

text \<open>The states the event loop can reach, within a batch and in a run from batch \<open>start\<close>.\<close>

definition reachable :: "loop_state \<Rightarrow> loop_state \<Rightarrow> bool" where
  "reachable c0 c = step\<^sup>*\<^sup>* c0 c"

definition run_reachable ::
  "nat \<Rightarrow> (py \<Rightarrow> exn + string) \<Rightarrow> int \<Rightarrow> (int \<Rightarrow> nat \<Rightarrow> remote) \<Rightarrow> string list \<Rightarrow> int
    \<Rightarrow> int \<times> loop_state \<Rightarrow> bool" where
  "run_reachable capacity get_text max_retries net ids start x =
     (run_step get_text max_retries net ids)\<^sup>*\<^sup>* (before_loop capacity start) x"

text \<open>
  The invariant of the event loop: the slots taken and the slots free add up to the
  capacity, and what each task has left to do is bracketed from where the task is.
\<close>

definition slots_balance :: "nat \<Rightarrow> loop_state \<Rightarrow> bool" where
  "slots_balance capacity c =
     (semaphore c + length (filter holds (tasks c)) = capacity
      \<and> (\<forall>t\<in>set (tasks c). bracketed (holds t) (in_flight t) (todo t)))"

text \<open>The characters that \<open>digits\<close> produces.\<close>

definition plain_digit :: "char \<Rightarrow> bool" where
  "plain_digit c = (\<exists>d<10. c = digit_char d)"

section \<open>Inputs of the examples\<close>

text \<open>A remote side that answers every attempt with 429, and one that never answers in time.\<close>

definition always_429 :: remote where
  "always_429 attempt = Inr \<lparr>status = 429, body = Inl Exception\<rparr>"

definition always_timeout :: remote where
  "always_timeout attempt = Inl TimeoutError"

text \<open>
  The text of a description that holds no markup and no white space at its ends is
  the description itself; the examples give \<open>plain_text\<close> such strings only.
\<close>

definition plain_text :: "py \<Rightarrow> exn + string" where
  "plain_text x = (case x of PyStr s \<Rightarrow> Inr s | _ \<Rightarrow> Inl Exception)"

text \<open>Remote sides with a 404 after one 429, with a 500, and with a 200 of few fields.\<close>

definition not_found_second :: remote where
  "not_found_second attempt =
     (if attempt = 1 then Inr \<lparr>status = 429, body = Inl Exception\<rparr>
      else Inr \<lparr>status = 404, body = Inl Exception\<rparr>)"

definition always_500 :: remote where
  "always_500 attempt = Inr \<lparr>status = 500, body = Inl Exception\<rparr>"

definition empty_200 :: remote where
  "empty_200 attempt = Inr \<lparr>status = 200, body = Inr (PyDict [])\<rparr>"

definition other_id_200 :: remote where
  "other_id_200 attempt =
     Inr \<lparr>status = 200, body = Inr (PyDict [(''id'', PyInt 2), (''price'', PyInt 45000)])\<rparr>"

text \<open>A network where every task of every batch meets a 500.\<close>

definition all_500 :: "int \<Rightarrow> nat \<Rightarrow> remote" where
  "all_500 batch_index j = always_500"

text \<open>A restart: the failure log of an earlier run is there, with its header and one row.\<close>

definition restart_world :: world where
  "restart_world =
     \<lparr>mem = init_state, output_dir = [],
      failed_file = Some [[''id'', ''error''], [''7'', ''404'']]\<rparr>"

text \<open>
  The event loop run by hand: task \<open>i\<close> goes through its next event if it has one and,
  for \<open>Acquire\<close>, the semaphore has a slot. Two tasks to run so.
\<close>

definition fire :: "nat \<Rightarrow> loop_state \<Rightarrow> loop_state" where
  "fire i c =
     (if i < length (tasks c) then
        (case todo (tasks c ! i) of
           [] \<Rightarrow> c
         | e # es \<Rightarrow>
             if e = Acquire \<and> semaphore c = 0 then c
             else \<lparr>semaphore = semaphore_after e (semaphore c),
                   tasks = (tasks c)[i := perform e (tasks c ! i)]\<rparr>)
      else c)"

definition two_tasks :: loop_state where
  "two_tasks =
     \<lparr>semaphore = MAX_CONCURRENCY,
      tasks = batch_tasks plain_text MAX_RETRIES all_500 [''8'', ''9''] 1\<rparr>"

text \<open>
  \<^verbatim>\<open>OUTPUT_DIR\<close> with the artifacts of batches 1 and 2 and a file of another name, and with
  the artifacts of batches 1 and 3 only.
\<close>

definition resumed_world :: world where
  "resumed_world =
     \<lparr>mem = init_state,
      output_dir = [(''tiki_batch_2.json'', PyList []), (''notes.txt'', PyNone),
                    (''tiki_batch_1.json'', PyList [])],
      failed_file = None\<rparr>"

definition gap_world :: world where
  "gap_world =
     \<lparr>mem = init_state,
      output_dir = [(''tiki_batch_3.json'', PyList []), (''tiki_batch_1.json'', PyList [])],
      failed_file = None\<rparr>"

section \<open>Integers and their decimal form\<close>

lemma digit_of_digit_char: "d < 10 \<Longrightarrow> digit_of (digit_char d) = Some (int d)"
  by (simp add: digit_of_def digit_char_def Let_def)

lemma digit_char_plain:
  "d < 10 \<Longrightarrow> digit_char d \<noteq> CHR ''_'' \<and> digit_char d \<noteq> CHR ''.'' \<and> \<not> is_space (digit_char d)"
proof -
  assume d: "d < 10"
  have "of_char (digit_char d) = 48 + d"
    using d by (simp add: digit_char_def)
  moreover have "of_char (CHR ''_'') = (95::nat)" "of_char (CHR ''.'') = (46::nat)" by simp_all
  ultimately have 1: "digit_char d \<noteq> CHR ''_''" "digit_char d \<noteq> CHR ''.''"
    using d by auto
  have "\<forall>c \<in> set [CHR 0x09, CHR 0x0A, CHR 0x0B, CHR 0x0C, CHR 0x0D, CHR '' '']. (of_char c :: nat) < 48"
    by simp
  then have "\<not> is_space (digit_char d)"
    unfolding is_space_def using \<open>of_char (digit_char d) = 48 + d\<close>
    by (metis add_lessD1 less_irrefl)
  with 1 show ?thesis by simp
qed

lemma digits_plain: "c \<in> set (digits n) \<Longrightarrow> plain_digit c"
proof (induction n arbitrary: c rule: digits.induct)
  case (1 n)
  show ?case
  proof (cases "n < 10")
    case True
    with "1.prems" show ?thesis
      by (subst (asm) digits.simps) (auto simp: plain_digit_def)
  next
    case False
    with "1.prems" have "c \<in> set (digits (n div 10)) \<or> c = digit_char (n mod 10)"
      by (subst (asm) digits.simps) auto
    moreover have "n mod 10 < 10" by simp
    ultimately show ?thesis
      using 1 False unfolding plain_digit_def by blast
  qed
qed

lemma digits_not_Nil: "digits n \<noteq> []"
  by (subst digits.simps) simp

lemma parse_digits_snoc:
  assumes "\<forall>c\<in>set ds. plain_digit c" "d < 10" "ds \<noteq> [] \<or> \<not> p"
  shows "parse_digits p acc (ds @ [digit_char d]) =
     map_option (\<lambda>v. 10 * v + int d) (parse_digits True acc ds)"
  using assms
proof (induction ds arbitrary: p acc)
  case Nil
  then show ?case by (simp add: digit_of_digit_char digit_char_plain)
next
  case (Cons c ds)
  then obtain e where e: "e < 10" "c = digit_char e" by (auto simp: plain_digit_def)
  show ?case
  proof (cases ds)
    case Nil
    with e Cons.prems show ?thesis by (simp add: digit_of_digit_char digit_char_plain)
  next
    case (Cons c' ds')
    with e Cons.prems Cons.IH[of True "10 * acc + int e"] show ?thesis
      by (simp add: digit_of_digit_char digit_char_plain)
  qed
qed

lemma parse_digits_digits: "parse_digits p 0 (digits n) = Some (int n)"
proof (induction n arbitrary: p rule: digits.induct)
  case (1 n)
  show ?case
  proof (cases "n < 10")
    case True
    then show ?thesis
      by (subst digits.simps) (simp add: digit_of_digit_char digit_char_plain)
  next
    case False
    have "parse_digits p 0 (digits (n div 10) @ [digit_char (n mod 10)]) =
        map_option (\<lambda>v. 10 * v + int (n mod 10)) (parse_digits True 0 (digits (n div 10)))"
      by (rule parse_digits_snoc) (simp_all add: digits_plain digits_not_Nil)
    also have "\<dots> = Some (10 * int (n div 10) + int (n mod 10))"
      using 1 False by simp
    also have "10 * int (n div 10) + int (n mod 10) = int n"
      by presburger
    finally show ?thesis
      using False by (subst digits.simps) simp
  qed
qed

lemma strip_id:
  assumes "s \<noteq> []" "\<not> is_space (hd s)" "\<not> is_space (last s)"
  shows "strip s = s"
proof -
  have "dropWhile is_space s = s"
    using assms by (cases s) auto
  moreover have "dropWhile is_space (rev s) = rev s"
    using assms by (cases "rev s") (auto simp: hd_rev)
  ultimately show ?thesis by (simp add: strip_def)
qed

lemma hd_digits_plain: "plain_digit (hd (digits n))"
  by (rule digits_plain[of _ n]) (simp add: digits_not_Nil)

lemma last_digits_plain: "plain_digit (last (digits n))"
  by (rule digits_plain[of _ n]) (simp add: digits_not_Nil)

lemma plain_digit_facts:
  assumes "plain_digit c"
  shows "c \<noteq> CHR ''_'' \<and> c \<noteq> CHR ''.'' \<and> \<not> is_space c \<and> c \<noteq> CHR ''+'' \<and> c \<noteq> CHR ''-''"
proof -
  from assms obtain d where d: "d < 10" "c = digit_char d" by (auto simp: plain_digit_def)
  then have "of_char c = 48 + d" by (simp add: digit_char_def)
  then have "(48::nat) \<le> of_char c" by simp
  moreover have "of_char (CHR ''+'') = (43::nat)" "of_char (CHR ''-'') = (45::nat)" by simp_all
  ultimately have "c \<noteq> CHR ''+''" "c \<noteq> CHR ''-''" by auto
  with digit_char_plain[OF d(1)] d(2) show ?thesis by simp
qed

lemma py_int_py_str: "py_int (py_str i) = Inr i"
proof (cases "i < 0")
  case True
  have "strip (CHR ''-'' # digits (nat (- i))) = CHR ''-'' # digits (nat (- i))"
    using last_digits_plain[of "nat (- i)"] 
    by (intro strip_id) (auto simp: digits_not_Nil is_space_def dest: plain_digit_facts)
  with True show ?thesis
    by (simp add: py_int_def py_str_def parse_digits_digits)
next
  case False
  have "strip (digits (nat i)) = digits (nat i)"
    using last_digits_plain[of "nat i"] hd_digits_plain[of "nat i"]
    by (intro strip_id) (auto simp: digits_not_Nil dest: plain_digit_facts)
  moreover obtain c cs where "digits (nat i) = c # cs" "plain_digit c"
    using hd_digits_plain[of "nat i"] digits_not_Nil[of "nat i"] by (cases "digits (nat i)") auto
  ultimately show ?thesis
    using False parse_digits_digits[of False "nat i"]
    by (auto simp: py_int_def py_str_def dest: plain_digit_facts)
qed

section \<open>The name of an artifact and its index\<close>

lemma split_on_not_Nil: "split_on sep s \<noteq> []"
  by (induction s) (auto simp: Let_def)

lemma split_on_no_sep: "sep \<notin> set s \<Longrightarrow> split_on sep s = [s]"
  by (induction s) (auto simp: Let_def)

lemma split_on_append:
  "split_on sep (xs @ sep # ys) = split_on sep xs @ split_on sep ys"
  by (induction xs) (simp_all add: Let_def split_on_not_Nil)

lemma last_split_on: "sep \<notin> set ys \<Longrightarrow> last (split_on sep (xs @ sep # ys)) = ys"
  by (simp add: split_on_append split_on_no_sep)

lemma hd_split_on: "sep \<notin> set xs \<Longrightarrow> hd (split_on sep (xs @ sep # ys)) = xs"
  by (simp add: split_on_append split_on_no_sep)

lemma py_str_plain:
  "c \<in> set (py_str i) \<Longrightarrow> c \<noteq> CHR ''_'' \<and> c \<noteq> CHR ''.''"
  by (auto simp: py_str_def dest!: digits_plain plain_digit_facts split: if_splits)

lemma index_of_batch_file:
  "py_int (hd (split_on CHR ''.'' (last (split_on CHR ''_'' (batch_file i))))) = Inr i"
proof -
  have name: "batch_file i = ''tiki_batch'' @ CHR ''_'' # (py_str i @ ''.json'')"
    by (simp add: batch_file_def)
  have "CHR ''_'' \<notin> set (py_str i @ ''.json'')"
    using py_str_plain[of "CHR ''_''" i] by auto
  then have "last (split_on CHR ''_'' (batch_file i)) = py_str i @ ''.json''"
    unfolding name by (rule last_split_on)
  then have piece: "last (split_on CHR ''_'' (batch_file i)) = py_str i @ CHR ''.'' # ''json''"
    by simp
  have "CHR ''.'' \<notin> set (py_str i)"
    using py_str_plain[of "CHR ''.''" i] by blast
  then have "hd (split_on CHR ''.'' (last (split_on CHR ''_'' (batch_file i)))) = py_str i"
    unfolding piece by (rule hd_split_on)
  then show ?thesis
    by (simp only: py_int_py_str)
qed

lemma batch_file_is_artifact: "is_batch_artifact (batch_file i)"
  by (simp add: is_batch_artifact_def batch_file_def startswith_def endswith_def)

lemma done_batches_of_artifacts:
  assumes "\<forall>f\<in>set listing. is_batch_artifact f \<longrightarrow> f \<in> batch_file ` I"
  shows "\<exists>ns. done_batches listing = Inr ns \<and> set ns = {i\<in>I. batch_file i \<in> set listing}"
  using assms
proof (induction listing)
  case Nil
  then show ?case by simp
next
  case (Cons f fs)
  then obtain ns where ns: "done_batches fs = Inr ns" "set ns = {i\<in>I. batch_file i \<in> set fs}"
    by auto
  show ?case
  proof (cases "is_batch_artifact f")
    case True
    with Cons.prems obtain i where i: "i \<in> I" "f = batch_file i" by auto
    have "\<And>j. batch_file j = batch_file i \<Longrightarrow> j = i"
      using index_of_batch_file by (metis sum.inject(2))
    with True i ns show ?thesis
      by (auto simp: index_of_batch_file)
  next
    case False
    then have "\<And>i. batch_file i \<noteq> f"
      using batch_file_is_artifact by auto
    with False ns show ?thesis by auto
  qed
qed

lemma done_batches_exactly:
  assumes "\<forall>f\<in>set listing. is_batch_artifact f \<longrightarrow> f \<in> batch_file ` I"
    and "\<forall>i\<in>I. batch_file i \<in> set listing"
  shows "\<exists>ns. done_batches listing = Inr ns \<and> set ns = I"
  using done_batches_of_artifacts[OF assms(1)] assms(2) by auto

section \<open>A fetch only adds to the shared state\<close>

lemma after_init [simp]: "after init_state d = d" "after s init_state = s"
  by (simp_all add: after_def init_state_def)

lemma emit_after: "emit e (after s d) = after s (emit e d)"
  by (simp add: after_def emit_def)

lemma fail_with_after: "fail_with pid r (after s d) = after s (fail_with pid r d)"
  by (simp add: after_def fail_with_def)

lemma state_emit [simp]:
  "events (emit e s) = events s @ [e]"
  "failed_ids (emit e s) = failed_ids s"
  "consecutive_429 (emit e s) = consecutive_429 s"
  by (simp_all add: emit_def)

lemma state_fail_with [simp]:
  "failed_ids (fail_with pid e s) = failed_ids s @ [(pid, e)]"
  "events (fail_with pid e s) = events s"
  "consecutive_429 (fail_with pid e s) = consecutive_429 s"
  by (simp_all add: fail_with_def)

lemma try_block_frame:
  "try_block gt get pid a (after s d) =
     (case try_block gt get pid a d of (r, d') \<Rightarrow> (r, after s d'))"
  unfolding try_block_def Let_def
  by (simp add: after_def emit_def fail_with_def split: sum.splits py.splits)

lemma attempt_once_frame:
  "attempt_once gt get pid a (after s d) =
     (case attempt_once gt get pid a d of (r, d') \<Rightarrow> (r, after s d'))"
proof -
  obtain r d1 where t: "try_block gt get pid a (emit Acquire d) = (r, d1)"
    by (cases "try_block gt get pid a (emit Acquire d)")
  then have "try_block gt get pid a (emit Acquire (after s d)) = (r, after s d1)"
    by (simp add: emit_after try_block_frame)
  with t show ?thesis
    unfolding attempt_once_def
    by (simp add: emit_after fail_with_after split: sum.splits exn.splits)
qed

lemma fetch_loop_frame:
  "fetch_loop gt get pid as (after s d) =
     (case fetch_loop gt get pid as d of (r, d') \<Rightarrow> (r, after s d'))"
proof (induction as arbitrary: d)
  case Nil
  show ?case by (simp add: fail_with_after)
next
  case (Cons a as)
  then show ?case
    by (simp add: attempt_once_frame split: prod.splits sum.splits flow.splits)
qed

lemma fetch_product_frame:
  "fetch_product gt m get pid s =
     (case fetch_product gt m get pid init_state of (r, d) \<Rightarrow> (r, after s d))"
  unfolding fetch_product_def using fetch_loop_frame[of gt get pid _ s init_state] by simp

lemma fetch_product_events:
  "events (snd (fetch_product gt m get pid s)) = events s @ fetch_events gt m get pid"
  by (subst fetch_product_frame) (simp add: fetch_events_def after_def split: prod.splits)

section \<open>One attempt, and the loop\<close>

lemma attempt_once_outcome:
  "\<exists>f s'. attempt_once gt get pid a s = (Inr f, s') \<and>
     (case f of
        Continue \<Rightarrow> failed_ids s' = failed_ids s
      | Return r \<Rightarrow>
          (r = PyNone \<and> (\<exists>e. crawler_reason e \<and> failed_ids s' = failed_ids s @ [(pid, e)]))
          \<or> (truthy r \<and> failed_ids s' = failed_ids s))"
  unfolding attempt_once_def try_block_def Let_def
  by (auto simp: crawler_reason_def split: sum.splits exn.splits py.splits)

lemma attempt_once_events:
  "\<exists>E. events (snd (attempt_once gt get pid a s)) = events s @ E \<and> count_list E Request = 1
     \<and> (\<forall>rest. bracketed False False (E @ rest) = bracketed False False rest)"
  unfolding attempt_once_def try_block_def Let_def
  by (auto split: sum.splits exn.splits py.splits)

lemma fetch_loop_outcome:
  "\<exists>r s'. fetch_loop gt get pid as s = (Inr r, s') \<and>
     ((r = PyNone \<and> (\<exists>e. crawler_reason e \<and> failed_ids s' = failed_ids s @ [(pid, e)]))
      \<or> (truthy r \<and> failed_ids s' = failed_ids s))"
proof (induction as arbitrary: s)
  case Nil
  show ?case by (simp add: crawler_reason_def)
next
  case (Cons a as)
  obtain f s1 where a: "attempt_once gt get pid a s = (Inr f, s1)"
    and f: "case f of
        Continue \<Rightarrow> failed_ids s1 = failed_ids s
      | Return r \<Rightarrow>
          (r = PyNone \<and> (\<exists>e. crawler_reason e \<and> failed_ids s1 = failed_ids s @ [(pid, e)]))
          \<or> (truthy r \<and> failed_ids s1 = failed_ids s)"
    using attempt_once_outcome[of gt get pid a s] by blast
  show ?case
  proof (cases f)
    case Continue
    with a f Cons.IH[of s1] show ?thesis by simp
  next
    case (Return r)
    with a f show ?thesis by simp
  qed
qed

lemma fetch_loop_events:
  "\<exists>E. events (snd (fetch_loop gt get pid as s)) = events s @ E
     \<and> bracketed False False E \<and> count_list E Request \<le> length as"
proof (induction as arbitrary: s)
  case Nil
  show ?case by simp
next
  case (Cons a as)
  obtain E where E: "events (snd (attempt_once gt get pid a s)) = events s @ E"
    "count_list E Request = 1" "\<And>rest. bracketed False False (E @ rest) = bracketed False False rest"
    using attempt_once_events[of gt get pid a s] by blast
  obtain f s1 where a: "attempt_once gt get pid a s = (Inr f, s1)"
    using attempt_once_outcome[of gt get pid a s] by blast
  show ?case
  proof (cases f)
    case Continue
    obtain E' where E': "events (snd (fetch_loop gt get pid as s1)) = events s1 @ E'"
      "bracketed False False E'" "count_list E' Request \<le> length as"
      using Cons.IH[of s1] by blast
    with a E Continue show ?thesis
      by (intro exI[of _ "E @ E'"]) simp
  next
    case (Return r)
    with a E(1,2) E(3)[of "[]"] show ?thesis
      by (intro exI[of _ E]) simp
  qed
qed

lemma fetch_events_bracketed: "bracketed False False (fetch_events gt m get pid)"
  using fetch_loop_events[of gt get pid "[1..m]" init_state]
  by (auto simp: fetch_events_def fetch_product_def init_state_def)

text \<open>The passes that end in a retry leave the list of failures as it is.\<close>

lemma attempt_once_retry:
  assumes "rate_limited (get a) \<or> timed_out (get a)"
  shows "\<exists>s'. attempt_once gt get pid a s = (Inr Continue, s') \<and> failed_ids s' = failed_ids s
     \<and> requests s' = Suc (requests s) \<and> (\<exists>E. events s' = events s @ E)"
  using assms
  by (auto simp: attempt_once_def try_block_def rate_limited_def timed_out_def
      requests_def Let_def split: sum.splits exn.splits)

lemma fetch_loop_retry_prefix:
  assumes "\<forall>a\<in>set xs. rate_limited (get a) \<or> timed_out (get a)"
  shows "\<exists>s'. fetch_loop gt get pid (xs @ ys) s = fetch_loop gt get pid ys s'
     \<and> failed_ids s' = failed_ids s \<and> requests s' = requests s + length xs
     \<and> (\<exists>E. events s' = events s @ E)"
  using assms
proof (induction xs arbitrary: s)
  case Nil
  show ?case by (intro exI[of _ s]) simp
next
  case (Cons a xs)
  then obtain s1 E1 where s1: "attempt_once gt get pid a s = (Inr Continue, s1)"
    "failed_ids s1 = failed_ids s" "requests s1 = Suc (requests s)" "events s1 = events s @ E1"
    using attempt_once_retry[of get a gt pid s] by auto
  from Cons obtain s' E where "fetch_loop gt get pid (xs @ ys) s1 = fetch_loop gt get pid ys s'"
    "failed_ids s' = failed_ids s1" "requests s' = requests s1 + length xs"
    "events s' = events s1 @ E"
    by (meson list.set_intros(2))
  with s1 show ?case by (intro exI[of _ s']) simp
qed

text \<open>A fetch whose first \<open>a - 1\<close> attempts are retried reaches attempt \<open>a\<close>.\<close>

lemma fetch_product_reaches:
  assumes "1 \<le> a" "a \<le> m" "\<forall>b\<in>{1..<a}. rate_limited (get b) \<or> timed_out (get b)"
  shows "\<exists>s1. fetch_product gt m get pid s = fetch_loop gt get pid (a # [a + 1..m]) s1
     \<and> failed_ids s1 = failed_ids s \<and> requests s1 + 1 = requests s + nat a
     \<and> (\<exists>E. events s1 = events s @ E)"
proof -
  have split: "[1..m] = [1..a - 1] @ a # [a + 1..m]"
    using assms(1,2) by (rule upto_split3)
  have "\<forall>b\<in>set [1..a - 1]. rate_limited (get b) \<or> timed_out (get b)"
    using assms(3) by auto
  from fetch_loop_retry_prefix[OF this, of gt pid "a # [a + 1..m]" s]
  obtain s1 where "fetch_loop gt get pid ([1..a - 1] @ a # [a + 1..m]) s = fetch_loop gt get pid (a # [a + 1..m]) s1"
    "failed_ids s1 = failed_ids s" "requests s1 = requests s + length [1..a - 1]"
    "\<exists>E. events s1 = events s @ E"
    by blast
  moreover have "length [1..a - 1] + 1 = nat a"
    using assms(1) by simp
  ultimately show ?thesis
    unfolding fetch_product_def split by (intro exI[of _ s1]) simp
qed

section \<open>The terminal answers\<close>

text \<open>
  Claim C4. When attempt \<open>a\<close> is answered with status 404, the attempts before it having
  been retried, the fetch returns \<^verbatim>\<open>None\<close> with the one record \<open>(pid, 404)\<close> added to
  \<^verbatim>\<open>failed_ids\<close>, and \<open>a\<close> requests were made in all: none after the 404, however many
  attempts \<open>max_retries\<close> would still allow. The fetch ends with the events of that
  attempt, which hold no sleep after the request.
\<close>

theorem not_found_is_terminal:
  assumes "1 \<le> a" "a \<le> max_retries"
    and "\<forall>b\<in>{1..<a}. rate_limited (get b) \<or> timed_out (get b)"
    and "get a = Inr resp" "status resp = 404"
  shows "\<exists>s'. fetch_product get_text max_retries get pid s = (Inr PyNone, s')
    \<and> failed_ids s' = failed_ids s @ [(pid, Code 404)]
    \<and> requests s' = requests s + nat a
    \<and> (\<exists>E. events s' = events s @ E @ [Acquire, Delay, Request, Closed, Release])"
proof -
  obtain s1 E where s1: "fetch_product get_text max_retries get pid s
      = fetch_loop get_text get pid (a # [a + 1..max_retries]) s1"
    "failed_ids s1 = failed_ids s" "requests s1 + 1 = requests s + nat a"
    "events s1 = events s @ E"
    using fetch_product_reaches[OF assms(1-3)] by blast
  then show ?thesis
    using assms(4,5) by (simp add: attempt_once_def try_block_def requests_def)
qed

theorem not_found_is_terminal_witness:
  "\<exists>s'. fetch_product plain_text MAX_RETRIES not_found_second ''p'' init_state = (Inr PyNone, s')
    \<and> failed_ids s' = [(''p'', Code 404)] \<and> requests s' = 2
    \<and> (\<exists>E. events s' = E @ [Acquire, Delay, Request, Closed, Release])"
proof -
  have 1: "(1::int) \<le> 2" "2 \<le> MAX_RETRIES"
    by (simp_all add: MAX_RETRIES_def)
  have 2: "\<forall>b\<in>{1..<2}. rate_limited (not_found_second b) \<or> timed_out (not_found_second b)"
    by (simp add: rate_limited_def not_found_second_def)
  have 3: "not_found_second 2 = Inr \<lparr>status = 404, body = Inl Exception\<rparr>"
    "status \<lparr>status = 404, body = Inl Exception\<rparr> = 404"
    by (simp_all add: not_found_second_def)
  show ?thesis
    using not_found_is_terminal[OF 1 2 3, of plain_text "''p''" init_state]
    by (simp add: init_state_def requests_def numeral_2_eq_2)
qed

text \<open>
  Claim C5. When attempt \<open>a\<close> is answered with a status other than 200, 404 and 429, the
  fetch returns \<^verbatim>\<open>None\<close> with the one record of that status added, and \<open>a\<close> requests
  were made in all: the attempts left are not used, and the fetch ends with the events of
  that attempt, which hold no sleep after the request.
\<close>

theorem other_status_is_terminal:
  assumes "1 \<le> a" "a \<le> max_retries"
    and "\<forall>b\<in>{1..<a}. rate_limited (get b) \<or> timed_out (get b)"
    and "get a = Inr resp" "status resp \<notin> {200, 404, 429}"
  shows "\<exists>s'. fetch_product get_text max_retries get pid s = (Inr PyNone, s')
    \<and> failed_ids s' = failed_ids s @ [(pid, Code (status resp))]
    \<and> requests s' = requests s + nat a
    \<and> (\<exists>E. events s' = events s @ E @ [Acquire, Delay, Request, Closed, Release])"
proof -
  obtain s1 E where s1: "fetch_product get_text max_retries get pid s
      = fetch_loop get_text get pid (a # [a + 1..max_retries]) s1"
    "failed_ids s1 = failed_ids s" "requests s1 + 1 = requests s + nat a"
    "events s1 = events s @ E"
    using fetch_product_reaches[OF assms(1-3)] by blast
  then show ?thesis
    using assms(4,5) by (simp add: attempt_once_def try_block_def requests_def)
qed

theorem other_status_is_terminal_witness:
  "\<exists>s'. fetch_product plain_text MAX_RETRIES always_500 ''p'' init_state = (Inr PyNone, s')
    \<and> failed_ids s' = [(''p'', Code 500)] \<and> requests s' = 1
    \<and> (\<exists>E. events s' = E @ [Acquire, Delay, Request, Closed, Release])"
proof -
  have 1: "(1::int) \<le> 1" "1 \<le> MAX_RETRIES"
    by (simp_all add: MAX_RETRIES_def)
  have 2: "\<forall>b\<in>{1..<1}. rate_limited (always_500 b) \<or> timed_out (always_500 b)"
    by simp
  have 3: "always_500 1 = Inr \<lparr>status = 500, body = Inl Exception\<rparr>"
    "status \<lparr>status = 500, body = Inl Exception\<rparr> \<notin> {200, 404, 429}"
    by (simp_all add: always_500_def)
  show ?thesis
    using other_status_is_terminal[OF 1 2 3, of plain_text "''p''" init_state]
    by (simp add: init_state_def requests_def)
qed

section \<open>Attempts used up\<close>

text \<open>
  Claim C1, as the code has it. When every attempt is answered with 429 or times out, in
  any mixture, the fetch returns \<^verbatim>\<open>None\<close> after \<open>max_retries\<close> requests with the one
  record \<open>(pid, "Failed")\<close> added to \<^verbatim>\<open>failed_ids\<close>: the reason is the same whatever used
  the attempts up.
\<close>

theorem exhausted_records_Failed:
  assumes "\<forall>a\<in>{1..max_retries}. rate_limited (get a) \<or> timed_out (get a)"
  shows "\<exists>s'. fetch_product get_text max_retries get pid s = (Inr PyNone, s')
    \<and> failed_ids s' = failed_ids s @ [(pid, Label ''Failed'')]
    \<and> requests s' = requests s + nat max_retries"
proof -
  have "\<forall>a\<in>set [1..max_retries]. rate_limited (get a) \<or> timed_out (get a)"
    using assms by simp
  from fetch_loop_retry_prefix[OF this, of get_text pid "[]" s]
  obtain s1 where "fetch_loop get_text get pid [1..max_retries] s = fetch_loop get_text get pid [] s1"
    "failed_ids s1 = failed_ids s" "requests s1 = requests s + length [1..max_retries]"
    by auto
  then show ?thesis
    by (simp add: fetch_product_def requests_def)
qed

theorem exhausted_records_Failed_witness:
  "\<exists>s'. fetch_product plain_text MAX_RETRIES always_429 ''p'' init_state = (Inr PyNone, s')
    \<and> failed_ids s' = [(''p'', Label ''Failed'')] \<and> requests s' = 3"
proof -
  have "\<forall>a\<in>{1..MAX_RETRIES}. rate_limited (always_429 a) \<or> timed_out (always_429 a)"
    by (simp add: rate_limited_def always_429_def)
  from exhausted_records_Failed[OF this, of plain_text "''p''" init_state]
  show ?thesis
    by (simp add: init_state_def requests_def MAX_RETRIES_def)
qed

text \<open>
  The claim as the specification words it asks for two distinct reasons. The fetch that
  meets 429 three times and the fetch that times out three times leave the same record.
\<close>

theorem exhaustion_reasons_counterexample:
  "failed_ids (snd (fetch_product plain_text MAX_RETRIES always_429 ''p'' init_state))
     = [(''p'', Label ''Failed'')]
   \<and> failed_ids (snd (fetch_product plain_text MAX_RETRIES always_timeout ''p'' init_state))
     = [(''p'', Label ''Failed'')]"
  by (simp add: fetch_product_def MAX_RETRIES_def upto.simps attempt_once_def try_block_def
      always_429_def always_timeout_def init_state_def)

section \<open>The record of a success\<close>

text \<open>
  Claim C9, as the code has it. When attempt \<open>a\<close> is answered with status 200 and a body
  that is a dict, and the library turns the description into text, the fetch returns the
  record built from the body: each of \<^verbatim>\<open>id\<close>, \<^verbatim>\<open>name\<close>, \<^verbatim>\<open>url_key\<close>, \<^verbatim>\<open>price\<close> and
  \<^verbatim>\<open>thumbnail_url\<close> (stored as \<^verbatim>\<open>image_url\<close>) is the body's value, \<^verbatim>\<open>None\<close> when the key is
  missing; the description is the text of the body's description, the text of the empty
  string when the key is missing. The \<^verbatim>\<open>id\<close> comes from the body, not from \<open>pid\<close>.
  Nothing is added to \<^verbatim>\<open>failed_ids\<close>.
\<close>

theorem success_record_from_body:
  assumes "1 \<le> a" "a \<le> max_retries"
    and "\<forall>b\<in>{1..<a}. rate_limited (get b) \<or> timed_out (get b)"
    and "get a = Inr resp" "status resp = 200" "body resp = Inr (PyDict data)"
    and "get_text (dict_get_default data ''description'' (PyStr '''')) = Inr text_desc"
  shows "\<exists>s'. fetch_product get_text max_retries get pid s =
      (Inr (PyDict
         [(''id'', dict_get data ''id''),
          (''name'', dict_get data ''name''),
          (''url_key'', dict_get data ''url_key''),
          (''price'', dict_get data ''price''),
          (''description'', PyStr text_desc),
          (''image_url'', dict_get data ''thumbnail_url'')]), s')
    \<and> failed_ids s' = failed_ids s
    \<and> (\<forall>k. map_of data k = None \<longrightarrow>
          dict_get data k = PyNone \<and> dict_get_default data k (PyStr '''') = PyStr '''')"
proof -
  obtain s1 where s1: "fetch_product get_text max_retries get pid s
      = fetch_loop get_text get pid (a # [a + 1..max_retries]) s1"
    "failed_ids s1 = failed_ids s"
    using fetch_product_reaches[OF assms(1-3)] by blast
  then show ?thesis
    using assms(4-7)
    by (simp add: attempt_once_def try_block_def dict_get_def dict_get_default_def)
qed

theorem success_record_from_body_witness:
  "\<exists>s'. fetch_product plain_text MAX_RETRIES other_id_200 ''1'' init_state =
      (Inr (PyDict
         [(''id'', PyInt 2), (''name'', PyNone), (''url_key'', PyNone), (''price'', PyInt 45000),
          (''description'', PyStr ''''), (''image_url'', PyNone)]), s')
    \<and> failed_ids s' = []"
proof -
  let ?data = "[(''id'', PyInt 2), (''price'', PyInt 45000)]"
  have 1: "(1::int) \<le> 1" "1 \<le> MAX_RETRIES"
    by (simp_all add: MAX_RETRIES_def)
  have 2: "\<forall>b\<in>{1..<1}. rate_limited (other_id_200 b) \<or> timed_out (other_id_200 b)"
    by simp
  have 3: "other_id_200 1 = Inr \<lparr>status = 200, body = Inr (PyDict ?data)\<rparr>"
    "status \<lparr>status = 200, body = Inr (PyDict ?data)\<rparr> = 200"
    "body \<lparr>status = 200, body = Inr (PyDict ?data)\<rparr> = Inr (PyDict ?data)"
    "plain_text (dict_get_default ?data ''description'' (PyStr '''')) = Inr ''''"
    by (simp_all add: other_id_200_def plain_text_def dict_get_default_def)
  show ?thesis
    using success_record_from_body[where get_text = plain_text and get = other_id_200
        and pid = "''1''" and s = init_state, OF 1 2 3]
    by (simp add: init_state_def dict_get_def dict_get_default_def)
qed

text \<open>
  The claim as worded puts \<^verbatim>\<open>null\<close> in place of every missing field. For a body with no
  field at all the description of the record is the empty string, not \<^verbatim>\<open>None\<close>.
\<close>

theorem missing_description_counterexample:
  "fst (fetch_product plain_text MAX_RETRIES empty_200 ''p'' init_state) =
     Inr (PyDict
       [(''id'', PyNone), (''name'', PyNone), (''url_key'', PyNone), (''price'', PyNone),
        (''description'', PyStr ''''), (''image_url'', PyNone)])"
  by (simp add: fetch_product_def MAX_RETRIES_def upto.simps attempt_once_def try_block_def
      empty_200_def init_state_def plain_text_def dict_get_def dict_get_default_def)

section \<open>The semaphore and the backoff\<close>

lemma bracketed_sleeps_held: "bracketed h r es \<Longrightarrow> sleeps_held h es"
  by (induction h r es rule: bracketed.induct) auto

text \<open>
  Claim C2, as the code has it. The events of a fetch are bracketed: each attempt enters
  the semaphore's block and leaves it before the next attempt or the return, so a fetch
  holds at most one slot and none between attempts; and every sleep of the fetch, the
  backoff after a 429 and after a timeout included, happens inside the block.
\<close>

theorem slot_held_through_backoff:
  "events (snd (fetch_product get_text max_retries get pid s))
      = events s @ fetch_events get_text max_retries get pid
   \<and> bracketed False False (fetch_events get_text max_retries get pid)
   \<and> sleeps_held False (fetch_events get_text max_retries get pid)"
  using fetch_events_bracketed[of get_text max_retries get pid]
  by (simp add: fetch_product_events bracketed_sleeps_held)

theorem slot_held_through_backoff_witness:
  "fetch_events plain_text MAX_RETRIES always_timeout ''p'' =
     [Acquire, Delay, Request, Closed, Sleep 2, Release,
      Acquire, Delay, Request, Closed, Sleep 4, Release,
      Acquire, Delay, Request, Closed, Sleep 6, Release]
   \<and> bracketed False False (fetch_events plain_text MAX_RETRIES always_timeout ''p'')
   \<and> sleeps_held False (fetch_events plain_text MAX_RETRIES always_timeout ''p'')"
proof -
  have "fetch_events plain_text MAX_RETRIES always_timeout ''p'' =
     [Acquire, Delay, Request, Closed, Sleep 2, Release,
      Acquire, Delay, Request, Closed, Sleep 4, Release,
      Acquire, Delay, Request, Closed, Sleep 6, Release]"
    by code_simp
  with slot_held_through_backoff[of plain_text MAX_RETRIES always_timeout "''p''" init_state]
  show ?thesis by simp
qed

text \<open>
  The claim as worded has the slot released before a backoff sleep. After a 429 and
  after a timeout the sleep is inside the semaphore's block.
\<close>

theorem sleeps_released_counterexample:
  "\<not> sleeps_released False (fetch_events plain_text MAX_RETRIES always_429 ''p'')
   \<and> \<not> sleeps_released False (fetch_events plain_text MAX_RETRIES always_timeout ''p'')"
  by (simp add: fetch_events_def fetch_product_def MAX_RETRIES_def upto.simps attempt_once_def
      try_block_def always_429_def always_timeout_def init_state_def)

section \<open>Failures are data\<close>

lemma fetch_product_outcome:
  "\<exists>r s'. fetch_product gt m get pid s = (Inr r, s') \<and>
     ((r = PyNone \<and> (\<exists>e. crawler_reason e \<and> failed_ids s' = failed_ids s @ [(pid, e)]))
      \<or> (truthy r \<and> failed_ids s' = failed_ids s))"
  unfolding fetch_product_def by (rule fetch_loop_outcome)

lemma gather_outcome:
  "\<exists>results s'. gather gt m net j pids s = (Inr results, s')
     \<and> length results + length (failed_ids s') = length (failed_ids s) + length pids
     \<and> (\<exists>F. failed_ids s' = failed_ids s @ F \<and> (\<forall>(pid, e)\<in>set F. crawler_reason e))"
proof (induction pids arbitrary: j s)
  case Nil
  show ?case by simp
next
  case (Cons pid pids)
  obtain r s1 where r: "fetch_product gt m (net j) pid s = (Inr r, s1)"
    "(r = PyNone \<and> (\<exists>e. crawler_reason e \<and> failed_ids s1 = failed_ids s @ [(pid, e)]))
      \<or> (truthy r \<and> failed_ids s1 = failed_ids s)"
    using fetch_product_outcome[of gt m "net j" pid s] by blast
  obtain results s2 F where g: "gather gt m net (Suc j) pids s1 = (Inr results, s2)"
    "length results + length (failed_ids s2) = length (failed_ids s1) + length pids"
    "failed_ids s2 = failed_ids s1 @ F" "\<forall>(pid, e)\<in>set F. crawler_reason e"
    using Cons.IH[of "Suc j" s1] by blast
  from r(2) show ?case
  proof
    assume "r = PyNone \<and> (\<exists>e. crawler_reason e \<and> failed_ids s1 = failed_ids s @ [(pid, e)])"
    then obtain e where "r = PyNone" "crawler_reason e" "failed_ids s1 = failed_ids s @ [(pid, e)]"
      by blast
    with r(1) g show ?thesis by (simp add: exI[of _ "(pid, e) # F"])
  next
    assume "truthy r \<and> failed_ids s1 = failed_ids s"
    with r(1) g show ?thesis by (simp add: exI[of _ F])
  qed
qed

lemma process_batches_returns:
  "\<exists>w'. process_batches gt m net ids indices w = Inr w'"
proof (induction indices arbitrary: w)
  case Nil
  show ?case by simp
next
  case (Cons i indices)
  define batch_ids where
    "batch_ids = slice ids ((i - 1) * BATCH_SIZE) (min ((i - 1) * BATCH_SIZE + BATCH_SIZE) (int (length ids)))"
  obtain results s where "gather gt m (net i) 0 batch_ids (mem w) = (Inr results, s)"
    using gather_outcome[of gt m "net i" 0 batch_ids "mem w"] by blast
  with Cons[of "flush_failed (save_batch i results (w\<lparr>mem := s\<rparr>))"] show ?case
    by (simp add: Let_def batch_ids_def[symmetric])
qed

text \<open>
  Claim C8. A fetch never raises: it returns, the same value whatever the shared state
  holds, and either the value is \<^verbatim>\<open>None\<close> and exactly one record for \<open>pid\<close> was added to
  \<^verbatim>\<open>failed_ids\<close>, or the value is a record and nothing was added. So the tasks of a
  batch all complete, the products and the new failure records together being as many
  as the identifiers of the batch; the loop over the batches runs to its end; and
  \<^verbatim>\<open>main\<close> raises only what the reading of the checkpoint raises, before any fetch.
\<close>

theorem failures_are_data:
  "(\<exists>r s'. fetch_product get_text max_retries get pid s = (Inr r, s')
      \<and> fst (fetch_product get_text max_retries get pid init_state) = Inr r
      \<and> ((r = PyNone \<and> (\<exists>e. crawler_reason e \<and> failed_ids s' = failed_ids s @ [(pid, e)]))
         \<or> (truthy r \<and> failed_ids s' = failed_ids s)))
   \<and> (\<exists>results s'. gather get_text max_retries net j pids s = (Inr results, s')
      \<and> length results + length (failed_ids s') = length (failed_ids s) + length pids)
   \<and> (\<exists>w'. process_batches get_text max_retries nets ids indices w = Inr w')
   \<and> (case batch_range (map fst (output_dir w)) ids of
        Inl e \<Rightarrow> main get_text max_retries nets ids w = Inl e
      | Inr indices \<Rightarrow> \<exists>w'. main get_text max_retries nets ids w = Inr w')"
proof -
  obtain r s' where r: "fetch_product get_text max_retries get pid s = (Inr r, s')"
    "(r = PyNone \<and> (\<exists>e. crawler_reason e \<and> failed_ids s' = failed_ids s @ [(pid, e)]))
      \<or> (truthy r \<and> failed_ids s' = failed_ids s)"
    using fetch_product_outcome[of get_text max_retries get pid s] by blast
  have "fst (fetch_product get_text max_retries get pid init_state) = Inr r"
    using r(1) by (subst (asm) fetch_product_frame) (simp split: prod.splits)
  with r have 1: "\<exists>r s'. fetch_product get_text max_retries get pid s = (Inr r, s')
      \<and> fst (fetch_product get_text max_retries get pid init_state) = Inr r
      \<and> ((r = PyNone \<and> (\<exists>e. crawler_reason e \<and> failed_ids s' = failed_ids s @ [(pid, e)]))
         \<or> (truthy r \<and> failed_ids s' = failed_ids s))"
    by blast
  have 2: "\<exists>results s'. gather get_text max_retries net j pids s = (Inr results, s')
      \<and> length results + length (failed_ids s') = length (failed_ids s) + length pids"
    using gather_outcome[of get_text max_retries net j pids s] by blast
  have 3: "case batch_range (map fst (output_dir w)) ids of
        Inl e \<Rightarrow> main get_text max_retries nets ids w = Inl e
      | Inr indices \<Rightarrow> \<exists>w'. main get_text max_retries nets ids w = Inr w'"
    by (simp add: main_def process_batches_returns split: sum.splits)
  from 1 2 3 process_batches_returns[of get_text max_retries nets ids indices w]
  show ?thesis by simp
qed

theorem failures_are_data_witness:
  "(\<exists>s'. fetch_product plain_text MAX_RETRIES always_500 ''8'' init_state = (Inr PyNone, s')
      \<and> failed_ids s' = [(''8'', Code 500)])
   \<and> (\<exists>results s'. gather plain_text MAX_RETRIES (all_500 1) 0 [''8'', ''9''] init_state = (Inr results, s')
      \<and> length results + length (failed_ids s') = 2)
   \<and> (\<exists>w'. main plain_text MAX_RETRIES all_500 [''8'', ''9''] restart_world = Inr w')"
proof -
  have 1: "fst (fetch_product plain_text MAX_RETRIES always_500 ''8'' init_state) = Inr PyNone"
    "failed_ids (snd (fetch_product plain_text MAX_RETRIES always_500 ''8'' init_state))
       = [(''8'', Code 500)]"
    by code_simp+
  have 2: "batch_range (map fst (output_dir restart_world)) [''8'', ''9''] = Inr [1]"
    by code_simp
  have 3: "length (failed_ids init_state) + length [''8'', ''9''] = 2"
    by (simp add: init_state_def)
  note t = failures_are_data[of plain_text MAX_RETRIES always_500 "''8''" init_state "all_500 1" 0
      "[''8'', ''9'']" all_500 "[''8'', ''9'']" "[1]" restart_world, unfolded 2 3]
  from t obtain r s' where "fetch_product plain_text MAX_RETRIES always_500 ''8'' init_state = (Inr r, s')"
    by blast
  with 1 have a: "\<exists>s'. fetch_product plain_text MAX_RETRIES always_500 ''8'' init_state = (Inr PyNone, s')
      \<and> failed_ids s' = [(''8'', Code 500)]"
    by simp
  from t have b: "\<exists>results s'. gather plain_text MAX_RETRIES (all_500 1) 0 [''8'', ''9''] init_state = (Inr results, s')
      \<and> length results + length (failed_ids s') = 2"
    by blast
  from t have c: "\<exists>w'. main plain_text MAX_RETRIES all_500 [''8'', ''9''] restart_world = Inr w'"
    by (simp del: process_batches.simps)
  from a b c show ?thesis by blast
qed

section \<open>The header of the failure log\<close>

lemma py_str_not_error: "py_str n \<noteq> ''error''"
proof
  assume "py_str n = ''error''"
  then have "CHR ''e'' \<in> set (py_str n)" by simp
  then have "plain_digit (CHR ''e'')"
    by (auto simp: py_str_def dest: digits_plain split: if_splits)
  then obtain d where "d < 10" "CHR ''e'' = digit_char d"
    by (auto simp: plain_digit_def)
  then have "(of_char (CHR ''e'') :: nat) = 48 + d"
    by (simp add: digit_char_def)
  with \<open>d < 10\<close> show False by simp
qed

lemma csv_row_not_header: "crawler_reason e \<Longrightarrow> csv_row (pid, e) \<noteq> csv_header"
  using py_str_not_error
  by (auto simp: csv_row_def csv_header_def crawler_reason_def split: err.splits)

lemma count_header_rows:
  "\<forall>(pid, e)\<in>set F. crawler_reason e \<Longrightarrow> count_list (map csv_row F) csv_header = 0"
  by (induction F) (auto simp: csv_row_not_header)

lemma rows_flush_failed:
  "rows_of (failed_file (flush_failed w)) =
     rows_of (failed_file w)
       @ (if failed_ids (mem w) \<noteq> [] \<and> rows_of (failed_file w) = [] then [csv_header] else [])
       @ map csv_row (failed_ids (mem w))"
  by (auto simp: flush_failed_def rows_of_def Let_def split: option.splits)

lemma flush_failed_header_once:
  assumes "header_once (failed_file w)" "\<forall>(pid, e)\<in>set (failed_ids (mem w)). crawler_reason e"
  shows "header_once (failed_file (flush_failed w))"
  using assms count_header_rows[OF assms(2)]
  by (auto simp: header_once_def rows_flush_failed)

lemma mem_flush_failed: "failed_ids (mem (flush_failed w)) = []"
  by (simp add: flush_failed_def Let_def)

lemma process_batches_log:
  assumes "header_once (failed_file w)" "\<forall>(pid, e)\<in>set (failed_ids (mem w)). crawler_reason e"
  shows "\<exists>w'. process_batches gt m net ids indices w = Inr w'
     \<and> header_once (failed_file w')
     \<and> (\<exists>new. rows_of (failed_file w') = rows_of (failed_file w) @ new)"
  using assms
proof (induction indices arbitrary: w)
  case Nil
  then show ?case by simp
next
  case (Cons i indices)
  define batch_ids where
    "batch_ids = slice ids ((i - 1) * BATCH_SIZE) (min ((i - 1) * BATCH_SIZE + BATCH_SIZE) (int (length ids)))"
  obtain results s F where g: "gather gt m (net i) 0 batch_ids (mem w) = (Inr results, s)"
    "failed_ids s = failed_ids (mem w) @ F" "\<forall>(pid, e)\<in>set F. crawler_reason e"
    using gather_outcome[of gt m "net i" 0 batch_ids "mem w"] by blast
  define w1 where "w1 = flush_failed (save_batch i results (w\<lparr>mem := s\<rparr>))"
  have 1: "header_once (failed_file w1)"
    unfolding w1_def using Cons.prems g(2,3)
    by (intro flush_failed_header_once) (auto simp: save_batch_def)
  have 2: "\<forall>(pid, e)\<in>set (failed_ids (mem w1)). crawler_reason e"
    by (simp add: w1_def mem_flush_failed)
  have 3: "\<exists>new. rows_of (failed_file w1) = rows_of (failed_file w) @ new"
    by (simp add: w1_def rows_flush_failed save_batch_def)
  from Cons.IH[OF 1 2] obtain w' new where
    "process_batches gt m net ids indices w1 = Inr w'" "header_once (failed_file w')"
    "rows_of (failed_file w') = rows_of (failed_file w1) @ new"
    by blast
  with 3 g(1) show ?case
    by (auto simp: Let_def batch_ids_def[symmetric] w1_def[symmetric])
qed

text \<open>
  Claim C6. A flush appends to the rows the file has: the header first when there is
  something to flush and the file does not exist or is empty, then the rows of the
  failures. A run of \<^verbatim>\<open>main\<close> that starts with the file absent, empty or holding the
  header once (as a file left by an earlier run does), and with \<^verbatim>\<open>failed_ids\<close> holding
  only reasons the crawler writes (it is empty at startup), leaves the file with its
  old rows first and, unless it is still absent or empty, the header exactly once.
\<close>

theorem failure_log_header_once:
  assumes "header_once (failed_file w)"
    and "\<forall>(pid, e)\<in>set (failed_ids (mem w)). crawler_reason e"
    and "main get_text max_retries net ids w = Inr w'"
  shows "header_once (failed_file w')
    \<and> (\<exists>new. rows_of (failed_file w') = rows_of (failed_file w) @ new)
    \<and> rows_of (failed_file (flush_failed w)) =
         rows_of (failed_file w)
          @ (if failed_ids (mem w) \<noteq> [] \<and> rows_of (failed_file w) = [] then [csv_header] else [])
          @ map csv_row (failed_ids (mem w))
    \<and> header_once (failed_file (flush_failed w))"
proof -
  from assms(3) obtain indices where
    "process_batches get_text max_retries net ids indices w = Inr w'"
    by (auto simp: main_def split: sum.splits)
  with process_batches_log[OF assms(1,2), of get_text max_retries net ids indices]
  show ?thesis
    using flush_failed_header_once[OF assms(1,2)] by (simp add: rows_flush_failed)
qed

lemma main_restart_world:
  "main plain_text MAX_RETRIES all_500 [''8''] restart_world =
     Inr \<lparr>mem = \<lparr>failed_ids = [], consecutive_429 = 0,
                  events = [Acquire, Delay, Request, Closed, Release]\<rparr>,
          output_dir = [(''tiki_batch_1.json'', PyList [])],
          failed_file = Some [[''id'', ''error''], [''7'', ''404''], [''8'', ''500'']]\<rparr>"
  by code_simp

theorem failure_log_header_once_witness:
  "header_once (failed_file restart_world)
   \<and> (\<exists>w'. main plain_text MAX_RETRIES all_500 [''8''] restart_world = Inr w'
        \<and> rows_of (failed_file w') = [[''id'', ''error''], [''7'', ''404''], [''8'', ''500'']]
        \<and> header_once (failed_file w'))"
proof -
  have 1: "header_once (failed_file restart_world)"
    by (simp add: header_once_def rows_of_def restart_world_def csv_header_def)
  have 2: "\<forall>(pid, e)\<in>set (failed_ids (mem restart_world)). crawler_reason e"
    by (simp add: restart_world_def init_state_def)
  from failure_log_header_once[OF 1 2 main_restart_world] 1 show ?thesis
    by (simp add: main_restart_world rows_of_def)
qed

section \<open>The bound on the requests in flight\<close>

lemma bracketed_in_flight_holds: "bracketed h r es \<Longrightarrow> r \<Longrightarrow> h"
  by (cases "(h, r, es)" rule: bracketed.cases) auto

lemma length_filter_update:
  "i < length xs \<Longrightarrow>
     length (filter P (xs[i := y])) + (if P (xs ! i) then 1 else 0)
       = length (filter P xs) + (if P y then 1 else 0)"
proof (induction xs arbitrary: i)
  case Nil
  then show ?case by simp
next
  case (Cons x xs)
  then show ?case by (cases i) auto
qed

lemma create_tasks_fresh:
  "t \<in> set (create_tasks gt m net j pids) \<Longrightarrow>
     \<not> holds t \<and> \<not> in_flight t \<and> bracketed False False (todo t)"
  by (induction pids arbitrary: j) (auto simp: fetch_events_bracketed)

lemma perform_bracketed:
  assumes "todo t = e # es" "bracketed (holds t) (in_flight t) (todo t)"
  shows "bracketed (holds (perform e t)) (in_flight (perform e t)) (todo (perform e t))"
    and "e = Acquire \<Longrightarrow> \<not> holds t \<and> holds (perform e t)"
    and "e = Release \<Longrightarrow> holds t \<and> \<not> holds (perform e t)"
    and "e \<noteq> Acquire \<Longrightarrow> e \<noteq> Release \<Longrightarrow> holds (perform e t) = holds t"
  using assms by (cases e; auto)+

lemma step_balance:
  assumes "step c c'" "slots_balance capacity c"
  shows "slots_balance capacity c'"
  using assms
proof (cases rule: step.cases)
  case (1 i e es)
  let ?t = "tasks c ! i"
  have t: "bracketed (holds ?t) (in_flight ?t) (todo ?t)"
    using assms(2) 1(2) by (simp add: slots_balance_def)
  note p = perform_bracketed[OF 1(3) t]
  have all: "\<forall>t\<in>set (tasks c'). bracketed (holds t) (in_flight t) (todo t)"
    using assms(2) p(1) 1(1,2) by (auto simp: slots_balance_def dest!: subsetD[OF set_update_subset_insert])
  have count: "length (filter holds (tasks c')) + (if holds ?t then 1 else 0)
      = length (filter holds (tasks c)) + (if holds (perform e ?t) then 1 else 0)"
    using length_filter_update[OF 1(2), of holds "perform e ?t"] 1(1) by simp
  have "semaphore c' + length (filter holds (tasks c')) = capacity"
  proof (cases e)
    case Acquire
    with p(2) 1(1,4) count assms(2) show ?thesis by (auto simp: slots_balance_def)
  next
    case Release
    with p(3) 1(1) count assms(2) show ?thesis by (auto simp: slots_balance_def)
  qed (use p(4) 1(1) count assms(2) in \<open>auto simp: slots_balance_def\<close>)
  with all show ?thesis by (simp add: slots_balance_def)
qed

lemma in_flight_le_holders:
  assumes "\<forall>t\<in>set ts. bracketed (holds t) (in_flight t) (todo t)"
  shows "length (filter in_flight ts) \<le> length (filter holds ts)"
  using assms by (induction ts) (auto dest: bracketed_in_flight_holds)

lemma all_done_none_holds:
  assumes "\<forall>t\<in>set ts. bracketed (holds t) (in_flight t) (todo t)" "\<forall>t\<in>set ts. todo t = []"
  shows "filter holds ts = []"
  using assms by (induction ts) auto

lemma fire_reachable: "reachable c0 c \<Longrightarrow> reachable c0 (fire i c)"
proof -
  assume r: "reachable c0 c"
  have "fire i c = c \<or> step c (fire i c)"
    by (auto simp: fire_def intro: step.intros split: list.splits)
  with r show ?thesis
    unfolding reachable_def by (auto intro: rtranclp.rtrancl_into_rtrancl)
qed

lemma schedule_reachable: "reachable c0 c \<Longrightarrow> reachable c0 (fold fire schedule c)"
  by (induction schedule arbitrary: c) (auto intro: fire_reachable)

lemma batch_tasks_fresh:
  "t \<in> set (batch_tasks gt m net ids i) \<Longrightarrow>
     \<not> holds t \<and> \<not> in_flight t \<and> bracketed False False (todo t)"
  unfolding batch_tasks_def Let_def by (rule create_tasks_fresh)

lemma run_step_balance:
  assumes "run_step gt m net ids x y" "slots_balance capacity (snd x)"
  shows "slots_balance capacity (snd y)"
  using assms
proof (cases rule: run_step.cases)
  case (task_step c c' i)
  with assms(2) show ?thesis by (auto intro: step_balance)
next
  case (next_batch c i)
  have "filter holds (tasks c) = []"
    using assms(2) next_batch(1,3) by (intro all_done_none_holds) (simp_all add: slots_balance_def)
  moreover have "filter holds (batch_tasks gt m net ids (i + 1)) = []"
    using batch_tasks_fresh[of _ gt m net ids "i + 1"] by (auto simp: filter_empty_conv)
  ultimately show ?thesis
    using assms(2) next_batch(1,2) batch_tasks_fresh[of _ gt m net ids "i + 1"]
    by (auto simp: slots_balance_def)
qed

lemma run_reachable_balance:
  assumes "run_reachable capacity gt m net ids start x"
  shows "slots_balance capacity (snd x)"
  using assms unfolding run_reachable_def
proof (induction rule: rtranclp_induct)
  case base
  show ?case by (simp add: before_loop_def slots_balance_def)
next
  case (step y z)
  then show ?case by (auto intro: run_step_balance)
qed

text \<open>
  Claim C7. Whatever the identifiers, the answers of the remote side, the batch the run
  starts at and the order in which the event loop runs the tasks, every state the run
  reaches has at most \<open>capacity\<close> tasks inside the block of \<^verbatim>\<open>session.get\<close>. The tasks
  inside the semaphore's block and the value of the semaphore add up to the capacity, so
  \<^verbatim>\<open>release\<close> never goes past the bound.
\<close>

theorem concurrency_bound:
  assumes "run_reachable capacity get_text max_retries net ids start (i, c)"
  shows "length (filter in_flight (tasks c)) \<le> capacity
    \<and> semaphore c + length (filter holds (tasks c)) = capacity"
proof -
  have b: "slots_balance capacity c"
    using run_reachable_balance[OF assms] by simp
  then have "length (filter in_flight (tasks c)) \<le> length (filter holds (tasks c))"
    by (intro in_flight_le_holders) (simp add: slots_balance_def)
  with b show ?thesis
    by (auto simp: slots_balance_def)
qed

lemma reachable_in_run:
  assumes "reachable c0 c"
  shows "(run_step gt m net ids)\<^sup>*\<^sup>* (i, c0) (i, c)"
  using assms unfolding reachable_def
  by (induction rule: rtranclp_induct)
    (auto intro: rtranclp.rtrancl_into_rtrancl run_step.task_step)

lemma two_tasks_after:
  "fold fire [0, 0, 0, 1] two_tasks =
     \<lparr>semaphore = 98,
      tasks = [\<lparr>holds = True, in_flight = True, todo = [Closed, Release]\<rparr>,
               \<lparr>holds = True, in_flight = False, todo = [Delay, Request, Closed, Release]\<rparr>]\<rparr>"
  by code_simp

lemma two_tasks_reached:
  "run_reachable MAX_CONCURRENCY plain_text MAX_RETRIES all_500 [''8'', ''9''] 1
     (1, fold fire [0, 0, 0, 1] two_tasks)"
proof -
  have "total_batches [''8'', ''9''] = 1"
    by (simp add: total_batches_def BATCH_SIZE_def)
  then have "run_step plain_text MAX_RETRIES all_500 [''8'', ''9'']
      (before_loop MAX_CONCURRENCY 1) (1, two_tasks)"
    using run_step.next_batch[of "\<lparr>semaphore = MAX_CONCURRENCY, tasks = []\<rparr>" 0 "[''8'', ''9'']"
        plain_text MAX_RETRIES all_500]
    by (simp add: before_loop_def two_tasks_def)
  moreover have "(run_step plain_text MAX_RETRIES all_500 [''8'', ''9''])\<^sup>*\<^sup>*
      (1, two_tasks) (1, fold fire [0, 0, 0, 1] two_tasks)"
    by (intro reachable_in_run schedule_reachable) (simp add: reachable_def)
  ultimately show ?thesis
    unfolding run_reachable_def by (rule converse_rtranclp_into_rtranclp)
qed

theorem concurrency_bound_witness:
  "run_reachable MAX_CONCURRENCY plain_text MAX_RETRIES all_500 [''8'', ''9''] 1
     (1, fold fire [0, 0, 0, 1] two_tasks)
   \<and> length (filter in_flight (tasks (fold fire [0, 0, 0, 1] two_tasks))) = 1
   \<and> 1 \<le> MAX_CONCURRENCY
   \<and> semaphore (fold fire [0, 0, 0, 1] two_tasks) = 98"
  using concurrency_bound[OF two_tasks_reached] two_tasks_reached
  unfolding two_tasks_after by (simp add: MAX_CONCURRENCY_def)

section \<open>Resuming\<close>

lemma batch_file_inject: "batch_file i = batch_file j \<Longrightarrow> i = j"
  by (metis index_of_batch_file sum.inject(2))

lemma output_dir_flush_failed [simp]: "output_dir (flush_failed w) = output_dir w"
  by (simp add: flush_failed_def Let_def)

lemma map_of_drop_name:
  "name \<noteq> k \<Longrightarrow> map_of (filter (\<lambda>(n, content). n \<noteq> k) xs) name = map_of xs name"
  by (induction xs) auto

lemma save_batch_other:
  "name \<noteq> batch_file i \<Longrightarrow>
     map_of (output_dir (save_batch i results w)) name = map_of (output_dir w) name"
  by (simp add: save_batch_def map_of_drop_name)

lemma save_batch_names:
  "fst ` set (output_dir (save_batch i results w)) = insert (batch_file i) (fst ` set (output_dir w))"
  by (force simp: save_batch_def)

text \<open>
  What the loop over the batches does to \<^verbatim>\<open>OUTPUT_DIR\<close>: it adds the artifacts of the
  indices it goes through and leaves every other file as it is.
\<close>

lemma process_batches_artifacts:
  assumes "process_batches gt m net ids indices w = Inr w'"
  shows "fst ` set (output_dir w') = fst ` set (output_dir w) \<union> batch_file ` set indices
    \<and> (\<forall>name. name \<notin> batch_file ` set indices \<longrightarrow> map_of (output_dir w') name = map_of (output_dir w) name)"
  using assms
proof (induction indices arbitrary: w)
  case Nil
  then show ?case by simp
next
  case (Cons i indices)
  define batch_ids where
    "batch_ids = slice ids ((i - 1) * BATCH_SIZE) (min ((i - 1) * BATCH_SIZE + BATCH_SIZE) (int (length ids)))"
  obtain results s where g: "gather gt m (net i) 0 batch_ids (mem w) = (Inr results, s)"
    using gather_outcome[of gt m "net i" 0 batch_ids "mem w"] by blast
  define w1 where "w1 = flush_failed (save_batch i results (w\<lparr>mem := s\<rparr>))"
  have "process_batches gt m net ids indices w1 = Inr w'"
    using Cons.prems g by (simp add: Let_def batch_ids_def[symmetric] w1_def)
  from Cons.IH[OF this]
  have IH: "fst ` set (output_dir w') = fst ` set (output_dir w1) \<union> batch_file ` set indices"
    "\<And>name. name \<notin> batch_file ` set indices \<Longrightarrow> map_of (output_dir w') name = map_of (output_dir w1) name"
    by simp_all
  have 1: "fst ` set (output_dir w1) = insert (batch_file i) (fst ` set (output_dir w))"
    by (simp add: w1_def save_batch_names)
  have 2: "\<And>name. name \<noteq> batch_file i \<Longrightarrow> map_of (output_dir w1) name = map_of (output_dir w) name"
    by (simp add: w1_def save_batch_other)
  from IH 1 2 show ?case by auto
qed

lemma main_from_start:
  assumes "start_batch (map fst (output_dir w)) = Inr start"
  shows "\<exists>w'. main gt m net ids w = Inr w'
    \<and> process_batches gt m net ids [start..total_batches ids] w = Inr w'"
  using assms process_batches_returns[of gt m net ids "[start..total_batches ids]" w]
  by (auto simp: main_def batch_range_def)

text \<open>
  Claim C3. When the artifacts in \<^verbatim>\<open>OUTPUT_DIR\<close> are those of the batches 1 to \<open>k\<close> and
  no other name there has the form of an artifact, the run starts at batch \<open>k + 1\<close>: the
  loop goes through \<open>k + 1\<close>, \<open>k + 2\<close>, up to the last batch and through no other. After
  the run the artifacts of 1 to \<open>k\<close> are what they were, and every batch from \<open>k + 1\<close> to
  the last has its artifact. With \<open>k = 0\<close> there is no artifact and the run starts at
  batch 1.
\<close>

theorem resume_after_contiguous_artifacts:
  assumes "0 \<le> k"
    and "\<forall>f\<in>set (map fst (output_dir w)). is_batch_artifact f \<longrightarrow> f \<in> batch_file ` {1..k}"
    and "\<forall>i\<in>{1..k}. batch_file i \<in> set (map fst (output_dir w))"
  shows "start_batch (map fst (output_dir w)) = Inr (k + 1)
    \<and> batch_range (map fst (output_dir w)) ids = Inr [k + 1..total_batches ids]
    \<and> set [k + 1..total_batches ids] = {i. k < i \<and> i \<le> total_batches ids}
    \<and> (\<exists>w'. main get_text max_retries net ids w = Inr w'
         \<and> (\<forall>i\<in>{1..k}. map_of (output_dir w') (batch_file i) = map_of (output_dir w) (batch_file i))
         \<and> (\<forall>i\<in>{k + 1..total_batches ids}. batch_file i \<in> fst ` set (output_dir w')))"
proof -
  obtain ns where ns: "done_batches (map fst (output_dir w)) = Inr ns" "set ns = {1..k}"
    using done_batches_exactly[OF assms(2,3)] by blast
  have "(if ns \<noteq> [] then Max (set ns) + 1 else 1) = k + 1"
  proof (cases "k = 0")
    case True
    with ns show ?thesis by auto
  next
    case False
    with assms(1) have "1 \<le> k" by simp
    then have "{1..k} \<noteq> {}" by simp
    moreover have "Max {1..k} = k"
      using \<open>1 \<le> k\<close> by (intro Max_eqI) auto
    ultimately have "{1..k} \<noteq> {}" "Max {1..k} = k" by simp_all
    with ns show ?thesis by auto
  qed
  with ns(1) have start: "start_batch (map fst (output_dir w)) = Inr (k + 1)"
    by (simp add: start_batch_def)
  obtain w' where w': "main get_text max_retries net ids w = Inr w'"
    "process_batches get_text max_retries net ids [k + 1..total_batches ids] w = Inr w'"
    using main_from_start[OF start] by blast
  note a = process_batches_artifacts[OF w'(2)]
  have "\<forall>i\<in>{1..k}. batch_file i \<notin> batch_file ` set [k + 1..total_batches ids]"
    by (auto dest: batch_file_inject)
  with a have old: "\<forall>i\<in>{1..k}. map_of (output_dir w') (batch_file i) = map_of (output_dir w) (batch_file i)"
    by blast
  have new: "\<forall>i\<in>{k + 1..total_batches ids}. batch_file i \<in> fst ` set (output_dir w')"
    using a by auto
  from start w'(1) old new show ?thesis
    by (auto simp: batch_range_def)
qed

lemma batch_file_1: "batch_file 1 = ''tiki_batch_1.json''"
  and batch_file_2: "batch_file 2 = ''tiki_batch_2.json''"
  and batch_file_3: "batch_file 3 = ''tiki_batch_3.json''"
  by code_simp+

lemma upto_1_2: "{1..2::int} = {1, 2}"
  by auto

theorem resume_after_contiguous_artifacts_witness:
  "start_batch (map fst (output_dir resumed_world)) = Inr 3
   \<and> batch_range (map fst (output_dir resumed_world)) (replicate 2001 ''8'') = Inr [3]
   \<and> (\<exists>w'. main plain_text MAX_RETRIES all_500 (replicate 2001 ''8'') resumed_world = Inr w'
        \<and> map_of (output_dir w') ''tiki_batch_1.json'' = Some (PyList [])
        \<and> map_of (output_dir w') ''tiki_batch_2.json'' = Some (PyList [])
        \<and> ''tiki_batch_3.json'' \<in> fst ` set (output_dir w'))"
proof -
  have 1: "(0::int) \<le> 2" by simp
  have 2: "\<forall>f\<in>set (map fst (output_dir resumed_world)).
      is_batch_artifact f \<longrightarrow> f \<in> batch_file ` {1..2}"
    by (simp add: resumed_world_def upto_1_2 batch_file_1 batch_file_2 is_batch_artifact_def
        startswith_def endswith_def)
  have 3: "\<forall>i\<in>{1..2}. batch_file i \<in> set (map fst (output_dir resumed_world))"
    by (simp add: resumed_world_def upto_1_2 batch_file_1 batch_file_2)
  have t: "total_batches (replicate 2001 ''8'') = 3"
    by (simp add: total_batches_def BATCH_SIZE_def)
  from resume_after_contiguous_artifacts[where get_text = plain_text and max_retries = MAX_RETRIES
      and net = all_500 and ids = "replicate 2001 ''8''", OF 1 2 3]
  show ?thesis
    unfolding t by (simp add: upto.simps upto_1_2 batch_file_1 batch_file_2 batch_file_3 resumed_world_def)
qed

text \<open>
  Claim C10. When the artifacts are those of any set \<open>I\<close> of indices, with gaps or
  without, the run starts one past the greatest of them. No index up to the greatest is
  gone through, and a batch below it whose artifact is missing still has none after the
  run: it is not processed, in this run or, the greatest index never getting smaller, in
  a later one.
\<close>

theorem resume_skips_gaps:
  assumes "I \<noteq> {}"
    and "\<forall>f\<in>set (map fst (output_dir w)). is_batch_artifact f \<longrightarrow> f \<in> batch_file ` I"
    and "\<forall>i\<in>I. batch_file i \<in> set (map fst (output_dir w))"
  shows "start_batch (map fst (output_dir w)) = Inr (Max I + 1)
    \<and> batch_range (map fst (output_dir w)) ids = Inr [Max I + 1..total_batches ids]
    \<and> (\<forall>j. j \<le> Max I \<longrightarrow> j \<notin> set [Max I + 1..total_batches ids])
    \<and> (\<exists>w'. main get_text max_retries net ids w = Inr w'
         \<and> (\<forall>j. j \<le> Max I \<and> j \<notin> I \<longrightarrow> batch_file j \<notin> fst ` set (output_dir w')))"
proof -
  obtain ns where ns: "done_batches (map fst (output_dir w)) = Inr ns" "set ns = I"
    using done_batches_exactly[OF assms(2,3)] by blast
  with assms(1) have start: "start_batch (map fst (output_dir w)) = Inr (Max I + 1)"
    by (auto simp: start_batch_def)
  obtain w' where w': "main get_text max_retries net ids w = Inr w'"
    "process_batches get_text max_retries net ids [Max I + 1..total_batches ids] w = Inr w'"
    using main_from_start[OF start] by blast
  note a = process_batches_artifacts[OF w'(2)]
  have "batch_file j \<notin> fst ` set (output_dir w')" if j: "j \<le> Max I" "j \<notin> I" for j
  proof
    assume "batch_file j \<in> fst ` set (output_dir w')"
    with a have "batch_file j \<in> fst ` set (output_dir w)
        \<or> batch_file j \<in> batch_file ` set [Max I + 1..total_batches ids]"
      by auto
    then show False
    proof
      assume "batch_file j \<in> fst ` set (output_dir w)"
      with assms(2) have "batch_file j \<in> batch_file ` I"
        using batch_file_is_artifact[of j] by auto
      with j(2) show False by (auto dest: batch_file_inject)
    next
      assume "batch_file j \<in> batch_file ` set [Max I + 1..total_batches ids]"
      with j(1) show False by (auto dest: batch_file_inject)
    qed
  qed
  with start w'(1) show ?thesis
    by (auto simp: batch_range_def)
qed

theorem resume_skips_gaps_witness:
  "start_batch (map fst (output_dir gap_world)) = Inr 4
   \<and> batch_range (map fst (output_dir gap_world)) (replicate 3001 ''8'') = Inr [4]
   \<and> (\<exists>w'. main plain_text MAX_RETRIES all_500 (replicate 3001 ''8'') gap_world = Inr w'
        \<and> ''tiki_batch_2.json'' \<notin> fst ` set (output_dir w'))"
proof -
  have 1: "{1, 3::int} \<noteq> {}" by simp
  have 2: "\<forall>f\<in>set (map fst (output_dir gap_world)). is_batch_artifact f \<longrightarrow> f \<in> batch_file ` {1, 3}"
    by (simp add: gap_world_def batch_file_1 batch_file_3)
  have 3: "\<forall>i\<in>{1, 3}. batch_file i \<in> set (map fst (output_dir gap_world))"
    by (simp add: gap_world_def batch_file_1 batch_file_3)
  have t: "total_batches (replicate 3001 ''8'') = 4"
    by (simp add: total_batches_def BATCH_SIZE_def)
  from resume_skips_gaps[where get_text = plain_text and max_retries = MAX_RETRIES
      and net = all_500 and ids = "replicate 3001 ''8''", OF 1 2 3]
  obtain w' where w': "start_batch (map fst (output_dir gap_world)) = Inr 4"
    "batch_range (map fst (output_dir gap_world)) (replicate 3001 ''8'') = Inr [4]"
    "main plain_text MAX_RETRIES all_500 (replicate 3001 ''8'') gap_world = Inr w'"
    "\<forall>j. j \<le> 3 \<and> j \<notin> {1, 3} \<longrightarrow> batch_file j \<notin> fst ` set (output_dir w')"
    unfolding t by (auto simp: upto.simps)
  from w'(4) have "batch_file 2 \<notin> fst ` set (output_dir w')"
    by simp
  with w'(1-3) show ?thesis
    by (auto simp: batch_file_2)
qed

end
